theory Spec2Isabelle
  imports Main
begin

section \<open>Data model\<close>

text \<open>
  The repository holds two variants of one service: \<^verbatim>\<open>src/fix.py\<close> (the engine
  \<^verbatim>\<open>fix_docx\<close> with its part patchers and fixers) and \<^verbatim>\<open>src/api/fix.py\<close>
  (\<^verbatim>\<open>is_valid_docx\<close> and \<^verbatim>\<open>fix_for_teams\<close>). Python \<^verbatim>\<open>bytes\<close> are lists of
  8-bit characters. Python \<^verbatim>\<open>str\<close> values that live in the XML tree (tags, attribute
  names and values, text) are lists of characters read as code points below 256; the
  text that \<^verbatim>\<open>bytes.decode\<close> yields is a list of code points of any size.
  A leading underscore of a source name is dropped (\<^verbatim>\<open>_patch_document\<close> is
  \<open>patch_document\<close>).
\<close>

type_synonym bytes = string
type_synonym ustr = "nat list"

datatype error = BadZipFile | KeyError | NameError | XMLSyntaxError | ValueError | UnicodeEncodeError

text \<open>
  The option bag is a dict read with \<^verbatim>\<open>options.get(key)\<close>; only the truth value of
  each of the five keys is ever used (a missing key reads as false).
\<close>

record options =
  fix_spacing :: bool
  fix_margins :: bool
  fix_fonts :: bool
  fix_images :: bool
  fix_tables :: bool

text \<open>
  An lxml element: tag in Clark notation, attributes in document order, text, children,
  tail. Comments and processing instructions are not represented.
\<close>

datatype xml =
  Element (elem_tag: string) (attrib: "(string \<times> string) list") (elem_text: string)
    (children: "xml list") (elem_tail: string)

text \<open>
  The library calls of the engine (zipfile, lxml, the UTF-8 codec) are parameters.
  \<open>ZipFile_namelist\<close> is \<^verbatim>\<open>ZipFile(buf)\<close> followed by \<^verbatim>\<open>namelist()\<close>: \<open>None\<close>
  when opening raises. \<open>ZipFile_read\<close> is \<^verbatim>\<open>ZipFile(buf, 'r')\<close> followed by
  \<^verbatim>\<open>infolist()\<close> and the members' data: \<open>None\<close> when opening or reading raises. \<open>ZipFile_getvalue\<close> is the
  buffer left by a \<^verbatim>\<open>ZipFile(buf, 'w')\<close> after the given \<^verbatim>\<open>writestr\<close> calls. The two
  parsers return \<open>None\<close> when no tree comes back (\<^verbatim>\<open>XMLSyntaxError\<close>, or a
  \<^verbatim>\<open>None\<close> root of the recovering parser, on which \<^verbatim>\<open>root.find\<close> raises).
  \<open>encode_utf8\<close> is \<open>None\<close> when \<^verbatim>\<open>str.encode\<close> raises.
\<close>

record env =
  LXML_AVAILABLE :: bool
  ZipFile_namelist :: "bytes \<Rightarrow> string list option"
  ZipFile_read :: "bytes \<Rightarrow> (string \<times> bytes) list option"
  ZipFile_getvalue :: "(string \<times> bytes) list \<Rightarrow> bytes"
  fromstring_recover :: "bytes \<Rightarrow> xml option"
  fromstring :: "bytes \<Rightarrow> xml option"
  tostring :: "xml \<Rightarrow> bytes"
  decode_utf8_replace :: "bytes \<Rightarrow> ustr"
  encode_utf8 :: "ustr \<Rightarrow> bytes option"

section \<open>Python string helpers\<close>

definition lstrip_dash :: "string \<Rightarrow> string" where
  "lstrip_dash s = dropWhile (\<lambda>c. c = CHR ''-'') s"

definition is_decimal :: "char \<Rightarrow> bool" where
  "is_decimal c = (48 \<le> (of_char c :: nat) \<and> (of_char c :: nat) \<le> 57)"

text \<open>
  \<^verbatim>\<open>str.isdigit\<close> below code point 256: the ten decimal digits and the superscripts
  two, three and one (U+00B2, U+00B3, U+00B9), which \<^verbatim>\<open>int\<close> rejects.
\<close>

definition isdigit_char :: "char \<Rightarrow> bool" where
  "isdigit_char c = (is_decimal c \<or> (of_char c :: nat) \<in> {178, 179, 185})"

definition isdigit :: "string \<Rightarrow> bool" where
  "isdigit s = (s \<noteq> [] \<and> list_all isdigit_char s)"

definition digits_value :: "string \<Rightarrow> int" where
  "digits_value ds = foldl (\<lambda>n c. 10 * n + (int (of_char c) - 48)) 0 ds"

text \<open>
  \<^verbatim>\<open>int(val)\<close> on the strings that reach it: every call site is guarded by
  \<^verbatim>\<open>val.lstrip('-').isdigit()\<close>, so \<open>val\<close> is a run of dashes followed by a
  non-empty run of \<open>isdigit\<close> characters. Python accepts one sign and decimal digits
  only, and raises \<^verbatim>\<open>ValueError\<close> otherwise; it also raises \<^verbatim>\<open>ValueError\<close> when
  there are more digits than the interpreter's limit
  (\<^verbatim>\<open>sys.int_info.default_max_str_digits\<close>, 4300). (Surrounding white space, a plus sign
  and underscores, which \<^verbatim>\<open>int\<close> also accepts, never pass the guard.)
\<close>

definition max_str_digits :: nat where
  "max_str_digits = 4300"

definition py_int :: "string \<Rightarrow> error + int" where
  "py_int s =
     (case s of
        [] \<Rightarrow> Inl ValueError
      | c # r \<Rightarrow>
          if c = CHR ''-'' then
            (if r \<noteq> [] \<and> list_all is_decimal r \<and> length r \<le> max_str_digits
             then Inr (- digits_value r) else Inl ValueError)
          else
            (if list_all is_decimal s \<and> length s \<le> max_str_digits
             then Inr (digits_value s) else Inl ValueError))"

function str_nat :: "nat \<Rightarrow> string" where
  "str_nat n =
     (if n < 10 then [''0123456789'' ! n] else str_nat (n div 10) @ [''0123456789'' ! (n mod 10)])"
  by pat_completeness auto
termination
  by (relation "measure id") auto

declare str_nat.simps [simp del]

definition py_str :: "int \<Rightarrow> string" where
  "py_str i = (if i < 0 then CHR ''-'' # str_nat (nat (- i)) else str_nat (nat i))"

text \<open>The guard \<^verbatim>\<open>val and val.lstrip('-').isdigit()\<close> on an attribute value.\<close>

definition numeric_guard :: "string \<Rightarrow> bool" where
  "numeric_guard val = (val \<noteq> [] \<and> isdigit (lstrip_dash val))"

text \<open>
  \<^verbatim>\<open>str.replace(old, new)\<close> for a non-empty \<open>old\<close>: the occurrences are found from
  the left and do not overlap. (The source only passes non-empty keys; for an empty
  \<open>old\<close>, where Python interleaves \<open>new\<close>, the model returns the text as it is.)
\<close>

function str_replace :: "'a list \<Rightarrow> 'a list \<Rightarrow> 'a list \<Rightarrow> 'a list" where
  "str_replace old new [] = []"
| "str_replace old new (x # xs) =
     (if old \<noteq> [] \<and> take (length old) (x # xs) = old
      then new @ str_replace old new (drop (length old) (x # xs))
      else x # str_replace old new xs)"
  by pat_completeness auto
termination
  by (relation "measure (\<lambda>(old, new, s). length s)") auto

section \<open>Element trees\<close>

definition tag :: "string \<Rightarrow> string \<Rightarrow> string" where
  "tag ns local = ''{'' @ ns @ ''}'' @ local"

definition W :: string where
  "W = ''http://schemas.openxmlformats.org/wordprocessingml/2006/main''"

definition WP :: string where
  "WP = ''http://schemas.openxmlformats.org/drawingml/2006/wordprocessingDrawing''"

text \<open>The tag of the graphic payload, written out in the source.\<close>

definition A_graphic :: string where
  "A_graphic = ''{http://schemas.openxmlformats.org/drawingml/2006/main}graphic''"

text \<open>\<^verbatim>\<open>etree.Element(t)\<close> and \<^verbatim>\<open>etree.SubElement(parent, t)\<close> create this element.\<close>

definition new_element :: "string \<Rightarrow> xml" where
  "new_element t = Element t [] [] [] []"

definition set_children :: "xml \<Rightarrow> xml list \<Rightarrow> xml" where
  "set_children e cs = Element (elem_tag e) (attrib e) (elem_text e) cs (elem_tail e)"

definition set_attrib :: "xml \<Rightarrow> (string \<times> string) list \<Rightarrow> xml" where
  "set_attrib e al = Element (elem_tag e) al (elem_text e) (children e) (elem_tail e)"

text \<open>\<^verbatim>\<open>el.get(name)\<close> and \<^verbatim>\<open>el.set(name, value)\<close>: a new name goes last.\<close>

definition get_attr :: "xml \<Rightarrow> string \<Rightarrow> string option" where
  "get_attr e k = map_of (attrib e) k"

fun attr_update :: "string \<Rightarrow> string \<Rightarrow> (string \<times> string) list \<Rightarrow> (string \<times> string) list" where
  "attr_update k v [] = [(k, v)]"
| "attr_update k v (p # ps) = (if fst p = k then (k, v) # ps else p # attr_update k v ps)"

definition set_attr :: "xml \<Rightarrow> string \<Rightarrow> string \<Rightarrow> xml" where
  "set_attr e k v = set_attrib e (attr_update k v (attrib e))"

text \<open>\<^verbatim>\<open>el.find(t)\<close>: the first child with tag \<open>t\<close>.\<close>

definition find_child :: "string \<Rightarrow> xml \<Rightarrow> xml option" where
  "find_child t e = List.find (\<lambda>c. elem_tag c = t) (children e)"

text \<open>The proper descendants in document order; \<^verbatim>\<open>el.find('.//' + t)\<close> is the first
  of them with tag \<open>t\<close>.\<close>

fun descendants :: "xml \<Rightarrow> xml list" where
  "descendants (Element t al x cs ta) = concat (map (\<lambda>c. c # descendants c) cs)"

definition find_desc :: "string \<Rightarrow> xml \<Rightarrow> xml option" where
  "find_desc t e = List.find (\<lambda>c. elem_tag c = t) (descendants e)"

definition findall_desc :: "string \<Rightarrow> xml \<Rightarrow> xml list" where
  "findall_desc t e = filter (\<lambda>c. elem_tag c = t) (descendants e)"

text \<open>
  The source mutates elements in place. A mutation of the first child with a given tag
  is the update of that child in the list of children; a mutation that may raise
  returns the error instead.
\<close>

fun update_first :: "('a \<Rightarrow> bool) \<Rightarrow> ('a \<Rightarrow> 'a) \<Rightarrow> 'a list \<Rightarrow> 'a list" where
  "update_first P f [] = []"
| "update_first P f (x # xs) = (if P x then f x # xs else x # update_first P f xs)"

fun update_first_err :: "('a \<Rightarrow> bool) \<Rightarrow> ('a \<Rightarrow> error + 'a) \<Rightarrow> 'a list \<Rightarrow> error + 'a list" where
  "update_first_err P f [] = Inr []"
| "update_first_err P f (x # xs) =
     (if P x then (case f x of Inl e \<Rightarrow> Inl e | Inr y \<Rightarrow> Inr (y # xs))
      else (case update_first_err P f xs of Inl e \<Rightarrow> Inl e | Inr ys \<Rightarrow> Inr (x # ys)))"

fun remove_first :: "('a \<Rightarrow> bool) \<Rightarrow> 'a list \<Rightarrow> 'a list" where
  "remove_first P [] = []"
| "remove_first P (x # xs) = (if P x then xs else x # remove_first P xs)"

definition update_child :: "string \<Rightarrow> (xml \<Rightarrow> xml) \<Rightarrow> xml \<Rightarrow> xml" where
  "update_child t f e = set_children e (update_first (\<lambda>c. elem_tag c = t) f (children e))"

definition update_child_err :: "string \<Rightarrow> (xml \<Rightarrow> error + xml) \<Rightarrow> xml \<Rightarrow> error + xml" where
  "update_child_err t f e =
     (case update_first_err (\<lambda>c. elem_tag c = t) f (children e) of
        Inl err \<Rightarrow> Inl err
      | Inr cs \<Rightarrow> Inr (set_children e cs))"

text \<open>\<^verbatim>\<open>el = parent.find(t)\<close>, then \<^verbatim>\<open>parent.remove(el)\<close> when one was found.\<close>

definition remove_child :: "string \<Rightarrow> xml \<Rightarrow> xml" where
  "remove_child t e = set_children e (remove_first (\<lambda>c. elem_tag c = t) (children e))"

text \<open>A loop body that may raise, run over a list from the left.\<close>

fun mapM :: "('a \<Rightarrow> error + 'b) \<Rightarrow> 'a list \<Rightarrow> error + 'b list" where
  "mapM f [] = Inr []"
| "mapM f (x # xs) =
     (case f x of
        Inl e \<Rightarrow> Inl e
      | Inr y \<Rightarrow> (case mapM f xs of Inl e \<Rightarrow> Inl e | Inr ys \<Rightarrow> Inr (y # ys)))"

lemma mapM_cong [fundef_cong]:
  "xs = ys \<Longrightarrow> (\<And>x. x \<in> set ys \<Longrightarrow> f x = g x) \<Longrightarrow> mapM f xs = mapM g ys"
  by (induction ys arbitrary: xs) (auto split: sum.splits)

section \<open>Fixers of \<^verbatim>\<open>src/fix.py\<close>\<close>

subsection \<open>Spacing\<close>

text \<open>The local \<^verbatim>\<open>_clamp(attr, max_val)\<close> of \<^verbatim>\<open>_fix_paragraph_spacing\<close>, on the
  spacing element.\<close>

definition clamp :: "string \<Rightarrow> int \<Rightarrow> xml \<Rightarrow> error + xml" where
  "clamp attr max_val spacing =
     (case get_attr spacing (tag W attr) of
        None \<Rightarrow> Inr spacing
      | Some val \<Rightarrow>
          if numeric_guard val then
            (case py_int val of
               Inl e \<Rightarrow> Inl e
             | Inr n \<Rightarrow>
                 if n > max_val then Inr (set_attr spacing (tag W attr) (py_str max_val))
                 else Inr spacing)
          else Inr spacing)"

text \<open>
  The \<^verbatim>\<open>line\<close>/\<^verbatim>\<open>lineRule\<close> part. \<^verbatim>\<open>int(line)\<close> stands to the right of
  \<^verbatim>\<open>and\<close>, so it is evaluated only when the rule test to its left holds.
\<close>

definition fix_line :: "xml \<Rightarrow> error + xml" where
  "fix_line spacing =
     (let line = get_attr spacing (tag W ''line'');
          lineRule = get_attr spacing (tag W ''lineRule'')
      in case line of
           None \<Rightarrow> Inr spacing
         | Some l \<Rightarrow>
             if numeric_guard l then
               (if lineRule = Some ''exact'' \<or> lineRule = Some ''atLeast'' then
                  (case py_int l of
                     Inl e \<Rightarrow> Inl e
                   | Inr n \<Rightarrow>
                       if n > 480 then
                         Inr (set_attr (set_attr spacing (tag W ''line'') ''276'')
                                (tag W ''lineRule'') ''auto'')
                       else Inr spacing)
                else if lineRule = Some ''auto'' then
                  (case py_int l of
                     Inl e \<Rightarrow> Inl e
                   | Inr n \<Rightarrow>
                       if n > 720 then Inr (set_attr spacing (tag W ''line'') ''480'')
                       else Inr spacing)
                else Inr spacing)
             else Inr spacing)"

definition fix_spacing_element :: "xml \<Rightarrow> error + xml" where
  "fix_spacing_element spacing =
     (case clamp ''before'' 160 spacing of
        Inl e \<Rightarrow> Inl e
      | Inr s1 \<Rightarrow>
          (case clamp ''after'' 160 s1 of
             Inl e \<Rightarrow> Inl e
           | Inr s2 \<Rightarrow> fix_line s2))"

text \<open>\<^verbatim>\<open>_fix_paragraph_spacing(pPr)\<close>: a missing spacing child is appended first.\<close>

definition fix_paragraph_spacing :: "xml \<Rightarrow> error + xml" where
  "fix_paragraph_spacing pPr =
     (let pPr1 =
            (case find_child (tag W ''spacing'') pPr of
               None \<Rightarrow> set_children pPr (children pPr @ [new_element (tag W ''spacing'')])
             | Some _ \<Rightarrow> pPr)
      in update_child_err (tag W ''spacing'') fix_spacing_element pPr1)"

subsection \<open>Indentation\<close>

definition zero_large :: "string \<Rightarrow> xml \<Rightarrow> error + xml" where
  "zero_large attr ind =
     (case get_attr ind (tag W attr) of
        None \<Rightarrow> Inr ind
      | Some val \<Rightarrow>
          if numeric_guard val then
            (case py_int val of
               Inl e \<Rightarrow> Inl e
             | Inr n \<Rightarrow> if \<bar>n\<bar> > 2880 then Inr (set_attr ind (tag W attr) ''0'') else Inr ind)
          else Inr ind)"

definition fix_ind_element :: "xml \<Rightarrow> error + xml" where
  "fix_ind_element ind =
     (case zero_large ''left'' ind of
        Inl e \<Rightarrow> Inl e
      | Inr i1 \<Rightarrow>
          (case zero_large ''right'' i1 of
             Inl e \<Rightarrow> Inl e
           | Inr i2 \<Rightarrow> zero_large ''hanging'' i2))"

definition fix_indentation :: "xml \<Rightarrow> error + xml" where
  "fix_indentation pPr = update_child_err (tag W ''ind'') fix_ind_element pPr"

subsection \<open>Fonts\<close>

definition UNSAFE :: "(string \<times> string) list" where
  "UNSAFE =
     [(''Calibri Light'', ''Calibri''),
      (''Cambria Math'', ''Cambria''),
      (''Symbol'', ''Arial''),
      (''Wingdings'', ''Arial''),
      (''Wingdings 2'', ''Arial''),
      (''Wingdings 3'', ''Arial''),
      (''Webdings'', ''Arial'')]"

definition safe_font :: "string \<Rightarrow> string" where
  "safe_font val = (case map_of UNSAFE val of Some new \<Rightarrow> new | None \<Rightarrow> val)"

definition fix_rFonts :: "xml \<Rightarrow> xml" where
  "fix_rFonts rFonts = set_attrib rFonts (map (\<lambda>(k, v). (k, safe_font v)) (attrib rFonts))"

text \<open>
  The loop over \<^verbatim>\<open>para.findall('.//rPr')\<close> rewrites, for every \<^verbatim>\<open>rPr\<close> below the
  paragraph, the attributes of its first \<^verbatim>\<open>rFonts\<close> child. It reads tags only and
  writes attributes only, so the order of the visits does not matter.
\<close>

fun fonts_in :: "xml \<Rightarrow> xml" where
  "fonts_in (Element t al x cs ta) =
     (let cs' = map fonts_in cs
      in Element t al x
           (if t = tag W ''rPr'' then update_first (\<lambda>c. elem_tag c = tag W ''rFonts'') fix_rFonts cs'
            else cs') ta)"

definition fix_run_fonts :: "xml \<Rightarrow> xml" where
  "fix_run_fonts para = set_children para (map fonts_in (children para))"

subsection \<open>Floating images\<close>

text \<open>The inline element built from an anchor and its graphic payload; the two
  \<^verbatim>\<open>copy.deepcopy\<close> results are the copied subtrees themselves.\<close>

definition make_inline :: "xml \<Rightarrow> xml \<Rightarrow> xml" where
  "make_inline anchor graphic =
     (let extent = find_child (tag WP ''extent'') anchor;
          cx = (case extent of
                  Some e \<Rightarrow> (case get_attr e ''cx'' of Some v \<Rightarrow> v | None \<Rightarrow> ''3000000'')
                | None \<Rightarrow> ''3000000'');
          cy = (case extent of
                  Some e \<Rightarrow> (case get_attr e ''cy'' of Some v \<Rightarrow> v | None \<Rightarrow> ''2000000'')
                | None \<Rightarrow> ''2000000'');
          ext_el = Element (tag WP ''extent'') [(''cx'', cx), (''cy'', cy)] [] [] [];
          effExtent = Element (tag WP ''effectExtent'')
                        [(''l'', ''0''), (''t'', ''0''), (''r'', ''0''), (''b'', ''0'')] [] [] [];
          docPr = find_child (tag WP ''docPr'') anchor
      in Element (tag WP ''inline'')
           [(''distT'', ''0''), (''distB'', ''0''), (''distL'', ''114240''), (''distR'', ''114240'')] []
           ([ext_el, effExtent] @ (case docPr of Some d \<Rightarrow> [d] | None \<Rightarrow> []) @ [graphic]) [])"

text \<open>The body of the loop of \<^verbatim>\<open>_fix_floating_images\<close> on one drawing element.\<close>

definition convert_drawing :: "xml \<Rightarrow> xml" where
  "convert_drawing drawing =
     (case find_child (tag WP ''anchor'') drawing of
        None \<Rightarrow> drawing
      | Some anchor \<Rightarrow>
          (case find_desc A_graphic anchor of
             None \<Rightarrow> drawing
           | Some graphic \<Rightarrow>
               set_children drawing
                 (remove_first (\<lambda>c. elem_tag c = tag WP ''anchor'') (children drawing)
                  @ [make_inline anchor graphic])))"

text \<open>
  The loop runs over the list \<^verbatim>\<open>body.findall('.//drawing')\<close>, made before the first
  change, in document order: a drawing is visited before the drawings below it. When a
  drawing is converted, its anchor is copied as it is at that moment and taken out of
  the tree; the drawings below the anchor are visited later, but they are no longer
  part of the tree that is serialized, and the copies inside the new inline are not in
  the list. So the result holds the copied payload unvisited, and every child that
  stays is visited.
\<close>

lemma member_size:
  "x \<in> set xs \<Longrightarrow> size x < Suc (size_list size xs)"
  by (induction xs) auto

lemma remove_first_subset:
  "x \<in> set (remove_first P xs) \<Longrightarrow> x \<in> set xs"
  by (induction xs) (auto split: if_splits)

function images_in :: "xml \<Rightarrow> xml" where
  "images_in (Element t al x cs ta) =
     (if t = tag W ''drawing'' then
        (case find_child (tag WP ''anchor'') (Element t al x cs ta) of
           None \<Rightarrow> Element t al x (map images_in cs) ta
         | Some anchor \<Rightarrow>
             (case find_desc A_graphic anchor of
                None \<Rightarrow> Element t al x (map images_in cs) ta
              | Some graphic \<Rightarrow>
                  Element t al x
                    (map images_in (remove_first (\<lambda>c. elem_tag c = tag WP ''anchor'') cs)
                     @ [make_inline anchor graphic]) ta))
      else Element t al x (map images_in cs) ta)"
  by pat_completeness auto
termination
proof (relation "measure size")
  show "wf (measure size)" by simp
next
  fix t al x cs ta and z :: xml
  assume "z \<in> set cs"
  then show "(z, Element t al x cs ta) \<in> measure size"
    by (induction cs) auto
next
  fix t al x cs ta and z :: xml
  assume "z \<in> set cs"
  then show "(z, Element t al x cs ta) \<in> measure size"
    by (induction cs) auto
next
  fix t al x cs ta anchor graphic and z :: xml
  assume "z \<in> set (remove_first (\<lambda>c. elem_tag c = tag WP ''anchor'') cs)"
  then show "(z, Element t al x cs ta) \<in> measure size"
    using member_size [OF remove_first_subset, of z _ cs] by simp
next
  fix t al x cs ta and z :: xml
  assume "z \<in> set cs"
  then show "(z, Element t al x cs ta) \<in> measure size"
    by (induction cs) auto
qed

definition fix_floating_images :: "xml \<Rightarrow> xml" where
  "fix_floating_images body = set_children body (map images_in (children body))"

subsection \<open>Tables\<close>

definition cell_margin :: "string \<Rightarrow> xml" where
  "cell_margin side = Element (tag W side) [(tag W ''w'', ''80''), (tag W ''type'', ''dxa'')] [] [] []"

definition new_tblCellMar :: xml where
  "new_tblCellMar =
     Element (tag W ''tblCellMar'') [] []
       (map cell_margin [''top'', ''left'', ''bottom'', ''right'']) []"

text \<open>The body of the loop of \<^verbatim>\<open>_fix_tables\<close> on one table element: a missing
  \<^verbatim>\<open>tblPr\<close> is created and moved to the front (\<^verbatim>\<open>SubElement\<close>, then
  \<^verbatim>\<open>insert(0, \<dots>)\<close>); a missing \<^verbatim>\<open>tblCellMar\<close> is created by \<^verbatim>\<open>SubElement\<close>
  alone, which appends.\<close>

definition add_cell_margins :: "xml \<Rightarrow> xml" where
  "add_cell_margins tblPr =
     (case find_child (tag W ''tblCellMar'') tblPr of
        None \<Rightarrow> set_children tblPr (children tblPr @ [new_tblCellMar])
      | Some _ \<Rightarrow> tblPr)"

definition fix_table :: "xml \<Rightarrow> xml" where
  "fix_table tbl =
     (let tbl1 =
            (case find_child (tag W ''tblPr'') tbl of
               None \<Rightarrow> set_children tbl (new_element (tag W ''tblPr'') # children tbl)
             | Some _ \<Rightarrow> tbl)
      in update_child (tag W ''tblPr'') add_cell_margins tbl1)"

text \<open>
  The loop over \<^verbatim>\<open>body.findall('.//tbl')\<close>: each visit changes the child list of
  its own table and of that table's \<^verbatim>\<open>tblPr\<close> only, and reads nothing another
  visit writes, so the visits may be taken bottom-up.
\<close>

fun tables_in :: "xml \<Rightarrow> xml" where
  "tables_in (Element t al x cs ta) =
     (let e = Element t al x (map tables_in cs) ta
      in if t = tag W ''tbl'' then fix_table e else e)"

definition fix_tables_body :: "xml \<Rightarrow> xml" where
  "fix_tables_body body = set_children body (map tables_in (children body))"

subsection \<open>Paragraphs\<close>

text \<open>\<^verbatim>\<open>SubElement(para, pPr)\<close> followed by \<^verbatim>\<open>para.insert(0, pPr)\<close>: lxml moves
  the new child to the front.\<close>

definition ensure_pPr :: "xml \<Rightarrow> xml" where
  "ensure_pPr para =
     (case find_child (tag W ''pPr'') para of
        None \<Rightarrow> set_children para (new_element (tag W ''pPr'') # children para)
      | Some _ \<Rightarrow> para)"

text \<open>The body of the loop over the paragraphs in \<^verbatim>\<open>_patch_document\<close>.\<close>

definition fix_paragraph :: "options \<Rightarrow> xml \<Rightarrow> error + xml" where
  "fix_paragraph opts para =
     (let p0 = ensure_pPr para
      in case (if fix_spacing opts then update_child_err (tag W ''pPr'') fix_paragraph_spacing p0
               else Inr p0) of
           Inl e \<Rightarrow> Inl e
         | Inr p1 \<Rightarrow>
             (case (if fix_margins opts then update_child_err (tag W ''pPr'') fix_indentation p1
                    else Inr p1) of
                Inl e \<Rightarrow> Inl e
              | Inr p2 \<Rightarrow> Inr (if fix_fonts opts then fix_run_fonts p2 else p2)))"

text \<open>
  The loop over \<^verbatim>\<open>body.findall('.//p')\<close>. A visit changes the child list of its own
  paragraph and of its \<^verbatim>\<open>pPr\<close>, the attributes of that \<^verbatim>\<open>pPr\<close>'s spacing and
  indentation children, and the attributes of \<^verbatim>\<open>rFonts\<close> elements; it reads tags and
  the attributes of its own spacing and indentation children. No visit reads what
  another one writes, and the only exception is \<^verbatim>\<open>ValueError\<close>, so the visits may be
  taken bottom-up.
\<close>

fun paragraphs_in :: "options \<Rightarrow> xml \<Rightarrow> error + xml" where
  "paragraphs_in opts (Element t al x cs ta) =
     (case mapM (paragraphs_in opts) cs of
        Inl e \<Rightarrow> Inl e
      | Inr cs' \<Rightarrow>
          if t = tag W ''p'' then fix_paragraph opts (Element t al x cs' ta)
          else Inr (Element t al x cs' ta))"

section \<open>Part patchers of \<^verbatim>\<open>src/fix.py\<close>\<close>

text \<open>What \<^verbatim>\<open>_patch_document\<close> does to the body element between parsing and
  serializing.\<close>

definition patch_body :: "options \<Rightarrow> xml \<Rightarrow> error + xml" where
  "patch_body opts body =
     (case mapM (paragraphs_in opts) (children body) of
        Inl e \<Rightarrow> Inl e
      | Inr cs \<Rightarrow>
          (let b1 = set_children body cs;
               b2 = (if fix_images opts then fix_floating_images b1 else b1);
               b3 = (if fix_tables opts then fix_tables_body b2 else b2)
           in Inr b3))"

text \<open>The body is the first proper descendant of the root with the body tag; the
  changes made to it are changes of the tree under the root.\<close>

fun subst_desc :: "string \<Rightarrow> xml \<Rightarrow> xml list \<Rightarrow> xml list option" where
  "subst_desc t new [] = None"
| "subst_desc t new (Element t' al x cs ta # rest) =
     (if t' = t then Some (new # rest)
      else (case subst_desc t new cs of
              Some cs' \<Rightarrow> Some (Element t' al x cs' ta # rest)
            | None \<Rightarrow>
                (case subst_desc t new rest of
                   Some rest' \<Rightarrow> Some (Element t' al x cs ta # rest')
                 | None \<Rightarrow> None)))"

definition replace_desc :: "string \<Rightarrow> xml \<Rightarrow> xml \<Rightarrow> xml" where
  "replace_desc t new root =
     (case subst_desc t new (children root) of
        Some cs \<Rightarrow> set_children root cs
      | None \<Rightarrow> root)"

definition patch_document :: "env \<Rightarrow> bytes \<Rightarrow> options \<Rightarrow> error + bytes" where
  "patch_document L xml_bytes opts =
     (if \<not> LXML_AVAILABLE L then Inl NameError
      else case fromstring_recover L xml_bytes of
             None \<Rightarrow> Inl XMLSyntaxError
           | Some root \<Rightarrow>
               (case find_desc (tag W ''body'') root of
                  None \<Rightarrow> Inr xml_bytes
                | Some body \<Rightarrow>
                    (case patch_body opts body of
                       Inl e \<Rightarrow> Inl e
                     | Inr body' \<Rightarrow> Inr (tostring L (replace_desc (tag W ''body'') body' root)))))"

text \<open>The denylist of \<^verbatim>\<open>_patch_settings\<close>, and stripping a denylist from the
  \<^verbatim>\<open>compat\<close> child of the settings root.\<close>

definition settings_denylist :: "string list" where
  "settings_denylist =
     [''useWord2002TableStyleRules'', ''useWord97LineBreakRules'',
      ''useWord2003FootnoteLineBreakRules'']"

definition strip_flags :: "string list \<Rightarrow> xml \<Rightarrow> xml" where
  "strip_flags bad compat_el = fold (\<lambda>b c. remove_child (tag W b) c) bad compat_el"

definition strip_compat :: "string list \<Rightarrow> xml \<Rightarrow> xml" where
  "strip_compat bad root = update_child (tag W ''compat'') (strip_flags bad) root"

text \<open>The \<^verbatim>\<open>try\<close> block of \<^verbatim>\<open>_patch_settings\<close>, and the function with its
  \<^verbatim>\<open>except Exception: return xml_bytes\<close>.\<close>

definition patch_settings_try :: "env \<Rightarrow> bytes \<Rightarrow> error + bytes" where
  "patch_settings_try L xml_bytes =
     (if \<not> LXML_AVAILABLE L then Inl NameError
      else case fromstring L xml_bytes of
             None \<Rightarrow> Inl XMLSyntaxError
           | Some root \<Rightarrow> Inr (tostring L (strip_compat settings_denylist root)))"

definition patch_settings :: "env \<Rightarrow> bytes \<Rightarrow> bytes" where
  "patch_settings L xml_bytes =
     (case patch_settings_try L xml_bytes of Inl e \<Rightarrow> xml_bytes | Inr out \<Rightarrow> out)"

definition ascii :: "string \<Rightarrow> ustr" where
  "ascii s = map of_char s"

definition replacements :: "(ustr \<times> ustr) list" where
  "replacements =
     [(ascii ''Calibri Light'', ascii ''Calibri''),
      (ascii ''Cambria Math'', ascii ''Cambria'')]"

definition replace_all :: "(ustr \<times> ustr) list \<Rightarrow> ustr \<Rightarrow> ustr" where
  "replace_all table xml_str = fold (\<lambda>(old, new) s. str_replace old new s) table xml_str"

definition patch_styles_try :: "env \<Rightarrow> bytes \<Rightarrow> error + bytes" where
  "patch_styles_try L xml_bytes =
     (case encode_utf8 L (replace_all replacements (decode_utf8_replace L xml_bytes)) of
        None \<Rightarrow> Inl UnicodeEncodeError
      | Some out \<Rightarrow> Inr out)"

definition patch_styles :: "env \<Rightarrow> bytes \<Rightarrow> bytes" where
  "patch_styles L xml_bytes =
     (case patch_styles_try L xml_bytes of Inl e \<Rightarrow> xml_bytes | Inr out \<Rightarrow> out)"

section \<open>The archive rewriter \<^verbatim>\<open>fix_docx\<close>\<close>

text \<open>\<^verbatim>\<open>zin.read(name)\<close> looks the name up in the archive's table of names, where a
  later member of the same name has replaced an earlier one.\<close>

definition zin_read :: "(string \<times> bytes) list \<Rightarrow> string \<Rightarrow> bytes option" where
  "zin_read zin name = map_of (rev zin) name"

definition patch_entry :: "env \<Rightarrow> options \<Rightarrow> string \<Rightarrow> bytes \<Rightarrow> error + bytes" where
  "patch_entry L opts name data =
     (if name = ''word/document.xml'' then patch_document L data opts
      else if name = ''word/settings.xml'' then Inr (patch_settings L data)
      else if name = ''word/styles.xml'' \<and> fix_fonts opts then Inr (patch_styles L data)
      else Inr data)"

text \<open>The loop over \<^verbatim>\<open>zin.infolist()\<close>; the result lists the \<^verbatim>\<open>writestr\<close> calls.
  An exception leaves the function before anything is returned.\<close>

fun rewrite_entries ::
  "env \<Rightarrow> options \<Rightarrow> (string \<times> bytes) list \<Rightarrow> (string \<times> bytes) list \<Rightarrow> error + (string \<times> bytes) list" where
  "rewrite_entries L opts zin [] = Inr []"
| "rewrite_entries L opts zin (item # items) =
     (case zin_read zin (fst item) of
        None \<Rightarrow> Inl KeyError
      | Some data \<Rightarrow>
          (case patch_entry L opts (fst item) data of
             Inl e \<Rightarrow> Inl e
           | Inr data' \<Rightarrow>
               (case rewrite_entries L opts zin items of
                  Inl e \<Rightarrow> Inl e
                | Inr out \<Rightarrow> Inr ((fst item, data') # out))))"

definition fix_docx :: "env \<Rightarrow> bytes \<Rightarrow> options \<Rightarrow> error + bytes" where
  "fix_docx L input_bytes opts =
     (case ZipFile_read L input_bytes of
        None \<Rightarrow> Inl BadZipFile
      | Some zin \<Rightarrow>
          (case rewrite_entries L opts zin zin of
             Inl e \<Rightarrow> Inl e
           | Inr out \<Rightarrow> Inr (ZipFile_getvalue L out)))"

section \<open>The variant \<^verbatim>\<open>src/api/fix.py\<close>\<close>

definition is_valid_docx :: "env \<Rightarrow> bytes \<Rightarrow> bool" where
  "is_valid_docx L data =
     (if length data < 4 then False
      else if take 4 data \<noteq> [CHR ''P'', CHR ''K'', CHR 0x03, CHR 0x04] then False
      else (case ZipFile_namelist L data of
              None \<Rightarrow> False
            | Some names \<Rightarrow> ''word/document.xml'' \<in> set names))"

text \<open>Step 3 of \<^verbatim>\<open>fix_for_teams\<close> on the settings root: the same loop with this
  variant's denylist.\<close>

definition teams_denylist :: "string list" where
  "teams_denylist = [''useWord2002TableStyleRules'', ''useWord97LineBreakRules'', ''growAutofit'']"

definition fix_for_teams_compat :: "xml \<Rightarrow> xml" where
  "fix_for_teams_compat settings_root = strip_compat teams_denylist settings_root"

section \<open>A table-driven environment for running the model\<close>

text \<open>
  To run the engine on a concrete archive, the library parameters are given by finite
  tables: the archives and the XML documents that occur in the run, each with the bytes
  that stand for it. Bytes outside the tables do not open and do not parse. The codec
  is the identity on code points, which is what UTF-8 is on ASCII text.
\<close>

definition table_bytes :: "(bytes \<times> 'a) list \<Rightarrow> 'a \<Rightarrow> bytes" where
  "table_bytes table v = (case List.find (\<lambda>p. snd p = v) table of Some p \<Rightarrow> fst p | None \<Rightarrow> [])"

definition table_env :: "(bytes \<times> (string \<times> bytes) list) list \<Rightarrow> (bytes \<times> xml) list \<Rightarrow> env" where
  "table_env zips docs =
     \<lparr> LXML_AVAILABLE = True,
       ZipFile_namelist = (\<lambda>b. map_option (map fst) (map_of zips b)),
       ZipFile_read = map_of zips,
       ZipFile_getvalue = table_bytes zips,
       fromstring_recover = map_of docs,
       fromstring = map_of docs,
       tostring = table_bytes docs,
       decode_utf8_replace = map of_char,
       encode_utf8 = (\<lambda>s. Some (map char_of s)) \<rparr>"

section \<open>Concrete inputs\<close>

definition all_off :: options where
  "all_off = \<lparr>fix_spacing = False, fix_margins = False, fix_fonts = False,
                fix_images = False, fix_tables = False\<rparr>"

definition all_on :: options where
  "all_on = \<lparr>fix_spacing = True, fix_margins = True, fix_fonts = True,
               fix_images = True, fix_tables = True\<rparr>"

text \<open>A document with one empty paragraph, and what \<^verbatim>\<open>_patch_document\<close> makes of it
  when every option is off.\<close>

definition doc_one_para :: xml where
  "doc_one_para =
     Element (tag W ''document'') [] []
       [Element (tag W ''body'') [] [] [Element (tag W ''p'') [] [] [] []] []] []"

definition doc_one_para_pPr :: xml where
  "doc_one_para_pPr =
     Element (tag W ''document'') [] []
       [Element (tag W ''body'') [] []
          [Element (tag W ''p'') [] [] [Element (tag W ''pPr'') [] [] [] []] []] []] []"

definition archive_in :: "(string \<times> bytes) list" where
  "archive_in = [(''word/document.xml'', ''<one-para/>''), (''word/media/image1.png'', ''PNG'')]"

definition archive_out :: "(string \<times> bytes) list" where
  "archive_out = [(''word/document.xml'', ''<one-para-pPr/>''), (''word/media/image1.png'', ''PNG'')]"

definition env_one_para :: env where
  "env_one_para =
     table_env [(''zip-in'', archive_in), (''zip-out'', archive_out)]
       [(''<one-para/>'', doc_one_para), (''<one-para-pPr/>'', doc_one_para_pPr)]"

text \<open>An archive with the ZIP signature and a single member that is not the document
  part.\<close>

definition zip_no_document :: bytes where
  "zip_no_document = [CHR ''P'', CHR ''K'', CHR 0x03, CHR 0x04, CHR ''r'']"

definition env_no_document :: env where
  "env_no_document = table_env [(zip_no_document, [(''readme.txt'', ''hi'')])] []"





text \<open>A settings root whose \<^verbatim>\<open>compat\<close> child holds the given flags, and one with
  no \<^verbatim>\<open>compat\<close> child.\<close>

definition settings_with :: "string list \<Rightarrow> xml" where
  "settings_with flags =
     Element (tag W ''settings'') [] []
       [Element (tag W ''zoom'') [] [] [] [],
        Element (tag W ''compat'') [] [] (map (\<lambda>f. new_element (tag W f)) flags) []] []"

definition settings_plain :: xml where
  "settings_plain = Element (tag W ''settings'') [] [] [Element (tag W ''zoom'') [] [] [] []] []"

text \<open>A table whose \<^verbatim>\<open>tblPr\<close> holds a style reference, a table with no
  \<^verbatim>\<open>tblPr\<close>, and a table that has cell margins of its own.\<close>

definition tbl_styled :: xml where
  "tbl_styled =
     Element (tag W ''tbl'') [] []
       [Element (tag W ''tblPr'') [] []
          [Element (tag W ''tblStyle'') [(tag W ''val'', ''TableGrid'')] [] [] []] [],
        Element (tag W ''tr'') [] [] [] []] []"

definition tbl_bare :: xml where
  "tbl_bare = Element (tag W ''tbl'') [] [] [Element (tag W ''tr'') [] [] [] []] []"

definition tbl_with_margins :: xml where
  "tbl_with_margins =
     Element (tag W ''tbl'') [] []
       [Element (tag W ''tblPr'') [] []
          [Element (tag W ''tblCellMar'') [] []
             [Element (tag W ''left'') [(tag W ''w'', ''115''), (tag W ''type'', ''dxa'')] [] [] []] []] [],
        Element (tag W ''tr'') [] [] [] []] []"

text \<open>An environment with empty tables: only its codec is used.\<close>

definition env_ascii :: env where
  "env_ascii = table_env [] []"

text \<open>A spacing element with the given attributes of the main namespace, a
  \<^verbatim>\<open>pPr\<close> around it and a document with one paragraph around that; the archive
  holds a document whose paragraph has \<^verbatim>\<open>before="--200"\<close>.\<close>

definition spacing_with :: "(string \<times> string) list \<Rightarrow> xml" where
  "spacing_with al = Element (tag W ''spacing'') (map (\<lambda>(k, v). (tag W k, v)) al) [] [] []"

definition pPr_with :: "xml \<Rightarrow> xml" where
  "pPr_with spacing = Element (tag W ''pPr'') [] [] [spacing] []"

definition doc_with_pPr :: "xml \<Rightarrow> xml" where
  "doc_with_pPr pPr =
     Element (tag W ''document'') [] []
       [Element (tag W ''body'') [] [] [Element (tag W ''p'') [] [] [pPr] []] []] []"

definition env_double_dash :: env where
  "env_double_dash =
     table_env [(''zip-dd'', [(''word/document.xml'', ''<before=--200/>'')])]
       [(''<before=--200/>'', doc_with_pPr (pPr_with (spacing_with [(''before'', ''--200'')])))]"

text \<open>Drawings: a graphic payload, a floating anchor and the inline element that
  corresponds to it, each around a payload.\<close>

definition graphic_of :: "string \<Rightarrow> xml list \<Rightarrow> xml" where
  "graphic_of name inner = Element A_graphic [(''name'', name)] [] inner []"

definition anchor_of :: "xml \<Rightarrow> xml" where
  "anchor_of graphic =
     Element (tag WP ''anchor'') [(''behindDoc'', ''0'')] []
       [Element (tag WP ''extent'') [(''cx'', ''500000''), (''cy'', ''400000'')] [] [] [],
        graphic] []"

definition inline_of :: "xml \<Rightarrow> xml" where
  "inline_of graphic =
     Element (tag WP ''inline'')
       [(''distT'', ''0''), (''distB'', ''0''), (''distL'', ''114240''), (''distR'', ''114240'')] []
       [Element (tag WP ''extent'') [(''cx'', ''500000''), (''cy'', ''400000'')] [] [] [],
        Element (tag WP ''effectExtent'') [(''l'', ''0''), (''t'', ''0''), (''r'', ''0''), (''b'', ''0'')] [] [] [],
        graphic] []"

definition drawing_of :: "xml list \<Rightarrow> xml" where
  "drawing_of cs = Element (tag W ''drawing'') [] [] cs []"

definition body_of :: "xml list \<Rightarrow> xml" where
  "body_of cs = Element (tag W ''body'') [] [] cs []"

text \<open>The body of \<open>doc_one_para\<close>.\<close>

definition body_one_para :: xml where
  "body_one_para = Element (tag W ''body'') [] [] [Element (tag W ''p'') [] [] [] []] []"


section \<open>The archive rewriter: entries\<close>

lemma patch_entry_untouched:
  "name \<notin> {''word/document.xml'', ''word/settings.xml'', ''word/styles.xml''} \<Longrightarrow>
   patch_entry L opts name data = Inr data"
  by (simp add: patch_entry_def)

lemma rewrite_entries_names:
  "rewrite_entries L opts zin items = Inr out \<Longrightarrow> map fst out = map fst items"
  by (induction items arbitrary: out) (auto split: option.splits sum.splits)

lemma rewrite_entries_data:
  "rewrite_entries L opts zin items = Inr out \<Longrightarrow>
   list_all2 (\<lambda>item w. fst w = fst item \<and>
       (\<exists>data. zin_read zin (fst item) = Some data \<and> patch_entry L opts (fst item) data = Inr (snd w)))
     items out"
  by (induction items arbitrary: out) (auto split: option.splits sum.splits)

lemma rewrite_entries_member:
  assumes "rewrite_entries L opts zin items = Inr out" and "(name, v) \<in> set out"
  shows "\<exists>data. zin_read zin name = Some data \<and> patch_entry L opts name data = Inr v"
proof -
  from assms(2) obtain i where i: "i < length out" "out ! i = (name, v)"
    by (auto simp: in_set_conv_nth)
  from rewrite_entries_data [OF assms(1)] i show ?thesis
    by (auto simp: list_all2_conv_all_nth)
qed

lemma rewrite_entries_read_untouched:
  assumes r: "rewrite_entries L opts zin zin = Inr out"
    and n: "name \<notin> {''word/document.xml'', ''word/settings.xml'', ''word/styles.xml''}"
  shows "zin_read out name = zin_read zin name"
proof (cases "zin_read out name")
  case None
  then have "name \<notin> fst ` set out"
    by (simp add: zin_read_def map_of_eq_None_iff)
  then have "name \<notin> fst ` set zin"
    using rewrite_entries_names [OF r] by (metis list.set_map)
  then have "map_of (rev zin) name = None"
    by (simp add: map_of_eq_None_iff)
  then show ?thesis
    using None by (simp add: zin_read_def)
next
  case (Some v)
  then have "(name, v) \<in> set out"
    by (auto simp: zin_read_def dest: map_of_SomeD)
  from rewrite_entries_member [OF r this] obtain data
    where d: "zin_read zin name = Some data" "patch_entry L opts name data = Inr v" by blast
  from d(2) n have "v = data" by (simp add: patch_entry_untouched)
  with d(1) Some show ?thesis by simp
qed

lemma zin_read_distinct:
  "distinct (map fst zin) \<Longrightarrow> i < length zin \<Longrightarrow>
   zin_read zin (fst (zin ! i)) = Some (snd (zin ! i))"
  by (simp add: zin_read_def distinct_rev rev_map [symmetric] map_of_is_SomeI)

text \<open>
  Claim C1. Whenever \<^verbatim>\<open>fix_docx\<close> returns, the archive it has written lists the same
  entry names as the input, in the same order (so none is lost and none is added), and
  every name outside \<^verbatim>\<open>word/document.xml\<close>, \<^verbatim>\<open>word/settings.xml\<close>,
  \<^verbatim>\<open>word/styles.xml\<close> reads the same bytes from the output as from the input. When
  the input names are distinct, each such entry is the input entry itself.
\<close>

theorem fix_docx_preserves_entries:
  assumes "fix_docx L input_bytes opts = Inr output_bytes"
  shows "\<exists>zin out. ZipFile_read L input_bytes = Some zin \<and> output_bytes = ZipFile_getvalue L out \<and>
           map fst out = map fst zin \<and>
           (\<forall>name. name \<notin> {''word/document.xml'', ''word/settings.xml'', ''word/styles.xml''} \<longrightarrow>
              zin_read out name = zin_read zin name) \<and>
           (distinct (map fst zin) \<longrightarrow>
              (\<forall>i < length zin.
                 fst (zin ! i) \<notin> {''word/document.xml'', ''word/settings.xml'', ''word/styles.xml''} \<longrightarrow>
                 out ! i = zin ! i))"
proof -
  from assms obtain zin out where z: "ZipFile_read L input_bytes = Some zin"
    and r: "rewrite_entries L opts zin zin = Inr out"
    and o: "output_bytes = ZipFile_getvalue L out"
    by (auto simp: fix_docx_def split: option.splits sum.splits)
  have names: "map fst out = map fst zin"
    by (rule rewrite_entries_names [OF r])
  have reads: "\<forall>name. name \<notin> {''word/document.xml'', ''word/settings.xml'', ''word/styles.xml''} \<longrightarrow>
      zin_read out name = zin_read zin name"
    using rewrite_entries_read_untouched [OF r] by blast
  have same: "out ! i = zin ! i"
    if d: "distinct (map fst zin)" and i: "i < length zin"
      and n: "fst (zin ! i) \<notin> {''word/document.xml'', ''word/settings.xml'', ''word/styles.xml''}" for i
  proof -
    from names have len: "length out = length zin" by (metis length_map)
    from names i len have f: "fst (out ! i) = fst (zin ! i)" by (metis nth_map)
    from rewrite_entries_data [OF r] i obtain data
      where "zin_read zin (fst (zin ! i)) = Some data"
        and "patch_entry L opts (fst (zin ! i)) data = Inr (snd (out ! i))"
      by (auto simp: list_all2_conv_all_nth)
    with n zin_read_distinct [OF d i] have "snd (out ! i) = snd (zin ! i)"
      by (simp add: patch_entry_untouched)
    with f show ?thesis by (simp add: prod_eq_iff)
  qed
  from z o names reads same show ?thesis by blast
qed

theorem fix_docx_preserves_entries_witness:
  "fix_docx env_one_para ''zip-in'' all_off = Inr ''zip-out'' \<and>
   (\<exists>zin out. ZipFile_read env_one_para ''zip-in'' = Some zin \<and>
      ''zip-out'' = ZipFile_getvalue env_one_para out \<and>
      map fst out = map fst zin \<and>
      (\<forall>name. name \<notin> {''word/document.xml'', ''word/settings.xml'', ''word/styles.xml''} \<longrightarrow>
         zin_read out name = zin_read zin name) \<and>
      (distinct (map fst zin) \<longrightarrow>
         (\<forall>i < length zin.
            fst (zin ! i) \<notin> {''word/document.xml'', ''word/settings.xml'', ''word/styles.xml''} \<longrightarrow>
            out ! i = zin ! i)))"
proof -
  have run: "fix_docx env_one_para ''zip-in'' all_off = Inr ''zip-out''"
    by code_simp
  from run fix_docx_preserves_entries [OF run] show ?thesis by blast
qed

section \<open>The archive rewriter: failure\<close>

lemma fix_docx_not_a_zip:
  "ZipFile_read L input_bytes = None \<Longrightarrow> fix_docx L input_bytes opts = Inl BadZipFile"
  by (simp add: fix_docx_def)

lemma is_valid_docx_not_a_zip:
  "ZipFile_namelist L input_bytes = None \<Longrightarrow> \<not> is_valid_docx L input_bytes"
  by (simp add: is_valid_docx_def)

lemma is_valid_docx_no_document:
  "ZipFile_namelist L input_bytes = Some names \<Longrightarrow> ''word/document.xml'' \<notin> set names \<Longrightarrow>
   \<not> is_valid_docx L input_bytes"
  by (simp add: is_valid_docx_def)





text \<open>
  Claim C3, at an archive whose only member is \<^verbatim>\<open>readme.txt\<close>: the check
  \<^verbatim>\<open>is_valid_docx\<close> of \<^verbatim>\<open>src/api/fix.py\<close> rejects it, while \<^verbatim>\<open>fix_docx\<close> of
  \<^verbatim>\<open>src/fix.py\<close>, which is called with no such check, returns a rewritten archive
  with that member.
\<close>

theorem fix_docx_accepts_archive_without_document:
  "is_valid_docx env_no_document zip_no_document = False \<and>
   fix_docx env_no_document zip_no_document all_on =
     Inr (ZipFile_getvalue env_no_document [(''readme.txt'', ''hi'')])"
  by code_simp

section \<open>Settings and styles never abort the run\<close>







section \<open>Lists and elements\<close>

lemma tag_eq_iff: "tag ns a = tag ns b \<longleftrightarrow> a = b"
  by (simp add: tag_def)

lemma find_split:
  "List.find P xs = Some x \<Longrightarrow> \<exists>pre post. xs = pre @ x # post \<and> list_all (\<lambda>y. \<not> P y) pre \<and> P x"
proof (induction xs)
  case Nil
  then show ?case by simp
next
  case (Cons a xs)
  show ?case
  proof (cases "P a")
    case True
    with Cons.prems have "a = x" by simp
    with True have "a # xs = [] @ x # xs \<and> list_all (\<lambda>y. \<not> P y) [] \<and> P x" by simp
    then show ?thesis by blast
  next
    case False
    with Cons obtain pre post where "xs = pre @ x # post" "list_all (\<lambda>y. \<not> P y) pre" "P x"
      by auto
    with False have "a # xs = (a # pre) @ x # post \<and> list_all (\<lambda>y. \<not> P y) (a # pre) \<and> P x"
      by simp
    then show ?thesis by blast
  qed
qed

lemma update_first_split:
  "list_all (\<lambda>y. \<not> P y) pre \<Longrightarrow> P x \<Longrightarrow> update_first P f (pre @ x # post) = pre @ f x # post"
  by (induction pre) auto

lemma update_first_absent:
  "List.find P xs = None \<Longrightarrow> update_first P f xs = xs"
  by (induction xs) (auto split: if_splits)

lemma remove_first_filter_other:
  "(\<And>x. Q x \<Longrightarrow> \<not> P x) \<Longrightarrow> filter Q (remove_first P xs) = filter Q xs"
  by (induction xs) auto

lemma remove_first_count:
  "length (filter P (remove_first P xs)) = length (filter P xs) - 1"
  by (induction xs) auto

lemma children_set_children [simp]: "children (set_children e cs) = cs"
  by (simp add: set_children_def)

lemma elem_tag_set_children [simp]: "elem_tag (set_children e cs) = elem_tag e"
  by (simp add: set_children_def)

lemma attrib_set_children [simp]: "attrib (set_children e cs) = attrib e"
  by (simp add: set_children_def)

lemma elem_text_set_children [simp]: "elem_text (set_children e cs) = elem_text e"
  by (simp add: set_children_def)

lemma elem_tail_set_children [simp]: "elem_tail (set_children e cs) = elem_tail e"
  by (simp add: set_children_def)

lemma set_children_same [simp]: "set_children e (children e) = e"
  by (cases e) (simp add: set_children_def)

lemma strip_flags_frame:
  "elem_tag (strip_flags bad c) = elem_tag c \<and> attrib (strip_flags bad c) = attrib c \<and>
   elem_text (strip_flags bad c) = elem_text c \<and> elem_tail (strip_flags bad c) = elem_tail c"
  unfolding strip_flags_def
  by (induction bad arbitrary: c) (simp_all add: remove_child_def)

lemma strip_flags_children:
  "children (strip_flags bad c) =
     fold (\<lambda>b. remove_first (\<lambda>x. elem_tag x = tag W b)) bad (children c)"
  unfolding strip_flags_def
  by (induction bad arbitrary: c) (simp_all add: remove_child_def)

lemma fold_remove_keeps_others:
  "(\<And>x. Q x \<Longrightarrow> elem_tag x \<notin> tag W ` set bad) \<Longrightarrow>
   filter Q (fold (\<lambda>b. remove_first (\<lambda>x. elem_tag x = tag W b)) bad cs) = filter Q cs"
proof (induction bad arbitrary: cs)
  case Nil
  then show ?case by simp
next
  case (Cons b bad)
  have "filter Q (remove_first (\<lambda>x. elem_tag x = tag W b) cs) = filter Q cs"
    by (rule remove_first_filter_other) (use Cons.prems in auto)
  moreover have "filter Q (fold (\<lambda>b. remove_first (\<lambda>x. elem_tag x = tag W b)) bad
      (remove_first (\<lambda>x. elem_tag x = tag W b) cs)) = filter Q (remove_first (\<lambda>x. elem_tag x = tag W b) cs)"
    by (rule Cons.IH) (use Cons.prems in auto)
  ultimately show ?case by simp
qed

lemma fold_remove_count:
  "distinct bad \<Longrightarrow> b \<in> set bad \<Longrightarrow>
   length (filter (\<lambda>x. elem_tag x = tag W b)
       (fold (\<lambda>b. remove_first (\<lambda>x. elem_tag x = tag W b)) bad cs)) =
   length (filter (\<lambda>x. elem_tag x = tag W b) cs) - 1"
proof (induction bad arbitrary: cs)
  case Nil
  then show ?case by simp
next
  case (Cons a bad)
  show ?case
  proof (cases "a = b")
    case True
    with Cons.prems have nb: "b \<notin> set bad" by simp
    have "filter (\<lambda>x. elem_tag x = tag W b)
        (fold (\<lambda>b. remove_first (\<lambda>x. elem_tag x = tag W b)) bad
           (remove_first (\<lambda>x. elem_tag x = tag W b) cs)) =
      filter (\<lambda>x. elem_tag x = tag W b) (remove_first (\<lambda>x. elem_tag x = tag W b) cs)"
      by (rule fold_remove_keeps_others) (use nb in \<open>auto simp: tag_eq_iff\<close>)
    with True show ?thesis by (simp add: remove_first_count)
  next
    case False
    with Cons.prems have b: "b \<in> set bad" and d: "distinct bad" by auto
    have "filter (\<lambda>x. elem_tag x = tag W b) (remove_first (\<lambda>x. elem_tag x = tag W a) cs) =
        filter (\<lambda>x. elem_tag x = tag W b) cs"
      by (rule remove_first_filter_other) (use False in \<open>auto simp: tag_eq_iff\<close>)
    with Cons.IH [OF d b, of "remove_first (\<lambda>x. elem_tag x = tag W a) cs"] show ?thesis
      by simp
  qed
qed

lemma find_absent_all: "List.find P xs = None \<Longrightarrow> list_all (\<lambda>y. \<not> P y) xs"
  by (induction xs) (auto split: if_splits)

lemma find_after_prefix:
  "list_all (\<lambda>y. \<not> P y) pre \<Longrightarrow> P x \<Longrightarrow> List.find P (pre @ x # post) = Some x"
  by (induction pre) auto

lemma find_snoc_absent:
  "List.find P xs = None \<Longrightarrow> List.find P (xs @ [x]) = (if P x then Some x else None)"
  by (induction xs) (auto split: if_splits)

lemma find_snoc_present:
  "List.find P xs = Some y \<Longrightarrow> List.find P (xs @ zs) = Some y"
  by (induction xs) (auto split: if_splits)

lemma remove_first_split:
  "list_all (\<lambda>y. \<not> P y) pre \<Longrightarrow> P x \<Longrightarrow> remove_first P (pre @ x # post) = pre @ post"
  by (induction pre) auto

lemma remove_first_absent:
  "List.find P xs = None \<Longrightarrow> remove_first P xs = xs"
  by (induction xs) (auto split: if_splits)



text \<open>A property of an element and of every element below it.\<close>

fun all_elements :: "(xml \<Rightarrow> bool) \<Rightarrow> xml \<Rightarrow> bool" where
  "all_elements P (Element t al x cs ta) =
     (P (Element t al x cs ta) \<and> list_all (all_elements P) cs)"

lemma all_elements_iff:
  "all_elements P e \<longleftrightarrow> P e \<and> list_all (all_elements P) (children e)"
  by (cases e) simp

section \<open>The compatibility flag stripper\<close>

text \<open>
  Claim C4, as the code has it. \<^verbatim>\<open>_patch_settings\<close> strips three flags:
  \<^verbatim>\<open>useWord2002TableStyleRules\<close>, \<^verbatim>\<open>useWord97LineBreakRules\<close> and
  \<^verbatim>\<open>useWord2003FootnoteLineBreakRules\<close>. Without a \<^verbatim>\<open>compat\<close> child the settings
  tree is unchanged. With one, only that child changes, and only in its list of
  children: for each of the three names there is one child fewer of that name when
  there was one, every child of another name stays in place and in order, and
  \<^verbatim>\<open>growAutofit\<close> in particular stays.
\<close>

theorem compat_stripper_three_flags:
  "(find_child (tag W ''compat'') root = None \<longrightarrow> strip_compat settings_denylist root = root) \<and>
   (find_child (tag W ''compat'') root = Some c \<longrightarrow>
      (\<exists>pre post. children root = pre @ c # post \<and>
         list_all (\<lambda>y. elem_tag y \<noteq> tag W ''compat'') pre \<and>
         strip_compat settings_denylist root =
           set_children root (pre @ strip_flags settings_denylist c # post)) \<and>
      elem_tag (strip_flags settings_denylist c) = elem_tag c \<and>
      attrib (strip_flags settings_denylist c) = attrib c \<and>
      elem_text (strip_flags settings_denylist c) = elem_text c \<and>
      elem_tail (strip_flags settings_denylist c) = elem_tail c \<and>
      filter (\<lambda>x. elem_tag x \<notin> tag W ` set settings_denylist) (children (strip_flags settings_denylist c)) =
        filter (\<lambda>x. elem_tag x \<notin> tag W ` set settings_denylist) (children c) \<and>
      filter (\<lambda>x. elem_tag x = tag W ''growAutofit'') (children (strip_flags settings_denylist c)) =
        filter (\<lambda>x. elem_tag x = tag W ''growAutofit'') (children c) \<and>
      (\<forall>b \<in> set settings_denylist.
         length (filter (\<lambda>x. elem_tag x = tag W b) (children (strip_flags settings_denylist c))) =
         length (filter (\<lambda>x. elem_tag x = tag W b) (children c)) - 1))"
proof (intro conjI impI)
  assume "find_child (tag W ''compat'') root = None"
  then show "strip_compat settings_denylist root = root"
    by (simp add: strip_compat_def update_child_def find_child_def update_first_absent)
next
  assume f: "find_child (tag W ''compat'') root = Some c"
  then obtain pre post where s: "children root = pre @ c # post"
    "list_all (\<lambda>y. \<not> elem_tag y = tag W ''compat'') pre" "elem_tag c = tag W ''compat''"
    unfolding find_child_def using find_split [of "\<lambda>c. elem_tag c = tag W ''compat''"] by blast
  then have "strip_compat settings_denylist root =
      set_children root (pre @ strip_flags settings_denylist c # post)"
    by (simp add: strip_compat_def update_child_def update_first_split)
  with s show "\<exists>pre post. children root = pre @ c # post \<and>
         list_all (\<lambda>y. elem_tag y \<noteq> tag W ''compat'') pre \<and>
         strip_compat settings_denylist root =
           set_children root (pre @ strip_flags settings_denylist c # post)"
    by blast
next
  show "elem_tag (strip_flags settings_denylist c) = elem_tag c"
    "attrib (strip_flags settings_denylist c) = attrib c"
    "elem_text (strip_flags settings_denylist c) = elem_text c"
    "elem_tail (strip_flags settings_denylist c) = elem_tail c"
    using strip_flags_frame [of settings_denylist c] by simp_all
next
  show "filter (\<lambda>x. elem_tag x \<notin> tag W ` set settings_denylist) (children (strip_flags settings_denylist c)) =
        filter (\<lambda>x. elem_tag x \<notin> tag W ` set settings_denylist) (children c)"
    unfolding strip_flags_children by (rule fold_remove_keeps_others) simp
next
  show "filter (\<lambda>x. elem_tag x = tag W ''growAutofit'') (children (strip_flags settings_denylist c)) =
        filter (\<lambda>x. elem_tag x = tag W ''growAutofit'') (children c)"
    unfolding strip_flags_children
    by (rule fold_remove_keeps_others) (auto simp: settings_denylist_def tag_eq_iff)
next
  show "\<forall>b \<in> set settings_denylist.
         length (filter (\<lambda>x. elem_tag x = tag W b) (children (strip_flags settings_denylist c))) =
         length (filter (\<lambda>x. elem_tag x = tag W b) (children c)) - 1"
    unfolding strip_flags_children
    using fold_remove_count [of settings_denylist] by (simp add: settings_denylist_def)
qed

theorem compat_stripper_three_flags_witness:
  "find_child (tag W ''compat'') settings_plain = None \<and>
   strip_compat settings_denylist settings_plain = settings_plain \<and>
   find_child (tag W ''compat'') (settings_with [''useWord97LineBreakRules'', ''growAutofit'']) =
     Some (Element (tag W ''compat'') [] []
             [new_element (tag W ''useWord97LineBreakRules''), new_element (tag W ''growAutofit'')] []) \<and>
   filter (\<lambda>x. elem_tag x = tag W ''growAutofit'')
     (children (strip_flags settings_denylist
        (Element (tag W ''compat'') [] []
           [new_element (tag W ''useWord97LineBreakRules''), new_element (tag W ''growAutofit'')] []))) =
     [new_element (tag W ''growAutofit'')] \<and>
   length (filter (\<lambda>x. elem_tag x = tag W ''useWord97LineBreakRules'')
     (children (strip_flags settings_denylist
        (Element (tag W ''compat'') [] []
           [new_element (tag W ''useWord97LineBreakRules''), new_element (tag W ''growAutofit'')] [])))) = 0"
proof -
  have h0: "find_child (tag W ''compat'') settings_plain = None"
    by (simp add: find_child_def settings_plain_def tag_def)
  have h1: "find_child (tag W ''compat'') (settings_with [''useWord97LineBreakRules'', ''growAutofit'']) =
     Some (Element (tag W ''compat'') [] []
             [new_element (tag W ''useWord97LineBreakRules''), new_element (tag W ''growAutofit'')] [])"
    by (simp add: find_child_def settings_with_def tag_def)
  have m: "''useWord97LineBreakRules'' \<in> set settings_denylist"
    by (simp add: settings_denylist_def)
  from h0 h1 m
    compat_stripper_three_flags [of settings_plain undefined]
    compat_stripper_three_flags [of "settings_with [''useWord97LineBreakRules'', ''growAutofit'']"
      "Element (tag W ''compat'') [] []
             [new_element (tag W ''useWord97LineBreakRules''), new_element (tag W ''growAutofit'')] []"]
  show ?thesis
    by (simp add: new_element_def tag_def)
qed

text \<open>The two variants at a \<^verbatim>\<open>compat\<close> element holding the four flags of the claim
  and one more: each leaves one of the four in place.\<close>

theorem compat_stripper_keeps_a_listed_flag:
  "strip_compat settings_denylist
     (settings_with [''useWord2002TableStyleRules'', ''useWord97LineBreakRules'',
        ''useWord2003FootnoteLineBreakRules'', ''growAutofit'', ''compatSetting'']) =
   settings_with [''growAutofit'', ''compatSetting''] \<and>
   fix_for_teams_compat
     (settings_with [''useWord2002TableStyleRules'', ''useWord97LineBreakRules'',
        ''useWord2003FootnoteLineBreakRules'', ''growAutofit'', ''compatSetting'']) =
   settings_with [''useWord2003FootnoteLineBreakRules'', ''compatSetting'']"
  by code_simp

section \<open>The table fixer\<close>

text \<open>A table has cell margins when its first \<^verbatim>\<open>tblPr\<close> child has a
  \<^verbatim>\<open>tblCellMar\<close> child.\<close>

definition has_cell_margins :: "xml \<Rightarrow> bool" where
  "has_cell_margins tbl =
     (case find_child (tag W ''tblPr'') tbl of
        None \<Rightarrow> False
      | Some tblPr \<Rightarrow> find_child (tag W ''tblCellMar'') tblPr \<noteq> None)"

definition table_ok :: "xml \<Rightarrow> bool" where
  "table_ok e = (elem_tag e \<noteq> tag W ''tbl'' \<or> has_cell_margins e)"

lemma new_tblCellMar_sides:
  "new_tblCellMar =
     Element (tag W ''tblCellMar'') [] []
       [Element (tag W ''top'') [(tag W ''w'', ''80''), (tag W ''type'', ''dxa'')] [] [] [],
        Element (tag W ''left'') [(tag W ''w'', ''80''), (tag W ''type'', ''dxa'')] [] [] [],
        Element (tag W ''bottom'') [(tag W ''w'', ''80''), (tag W ''type'', ''dxa'')] [] [] [],
        Element (tag W ''right'') [(tag W ''w'', ''80''), (tag W ''type'', ''dxa'')] [] [] []] []"
  by (simp add: new_tblCellMar_def cell_margin_def)

lemma add_cell_margins_absent:
  "find_child (tag W ''tblCellMar'') pr = None \<Longrightarrow>
   add_cell_margins pr = set_children pr (children pr @ [new_tblCellMar])"
  by (simp add: add_cell_margins_def)

lemma fix_table_no_tblPr:
  assumes "find_child (tag W ''tblPr'') tbl = None"
  shows "fix_table tbl =
     set_children tbl (Element (tag W ''tblPr'') [] [] [new_tblCellMar] [] # children tbl)"
  using assms
  by (simp add: fix_table_def update_child_def new_element_def add_cell_margins_def
      find_child_def set_children_def)

lemma fix_table_tblPr:
  assumes "find_child (tag W ''tblPr'') tbl = Some pr"
  shows "\<exists>pre post. children tbl = pre @ pr # post \<and>
           list_all (\<lambda>y. elem_tag y \<noteq> tag W ''tblPr'') pre \<and>
           fix_table tbl = set_children tbl (pre @ add_cell_margins pr # post)"
proof -
  from assms obtain pre post where s: "children tbl = pre @ pr # post"
    "list_all (\<lambda>y. \<not> elem_tag y = tag W ''tblPr'') pre" "elem_tag pr = tag W ''tblPr''"
    unfolding find_child_def using find_split [of "\<lambda>c. elem_tag c = tag W ''tblPr''"] by blast
  with assms have "fix_table tbl = set_children tbl (pre @ add_cell_margins pr # post)"
    by (simp add: fix_table_def update_child_def update_first_split)
  with s show ?thesis by blast
qed

lemma fix_table_unchanged:
  assumes a: "find_child (tag W ''tblPr'') tbl = Some pr"
    and b: "find_child (tag W ''tblCellMar'') pr \<noteq> None"
  shows "fix_table tbl = tbl"
proof -
  from fix_table_tblPr [OF a] obtain pre post where s: "children tbl = pre @ pr # post"
    "fix_table tbl = set_children tbl (pre @ add_cell_margins pr # post)" by blast
  from b have "add_cell_margins pr = pr" by (auto simp: add_cell_margins_def)
  with s show "fix_table tbl = tbl" by (metis set_children_same)
qed

lemma fix_table_has_margins: "has_cell_margins (fix_table tbl)"
proof (cases "find_child (tag W ''tblPr'') tbl")
  case None
  then show ?thesis
    by (simp add: fix_table_no_tblPr has_cell_margins_def find_child_def new_tblCellMar_def)
next
  case (Some pr)
  from fix_table_tblPr [OF Some] obtain pre post where s: "children tbl = pre @ pr # post"
    "list_all (\<lambda>y. elem_tag y \<noteq> tag W ''tblPr'') pre"
    "fix_table tbl = set_children tbl (pre @ add_cell_margins pr # post)" by blast
  from Some have t: "elem_tag pr = tag W ''tblPr''"
    by (auto simp: find_child_def dest: find_split)
  have t': "elem_tag (add_cell_margins pr) = tag W ''tblPr''"
    using t by (simp add: add_cell_margins_def split: option.splits)
  have "find_child (tag W ''tblPr'') (fix_table tbl) = Some (add_cell_margins pr)"
    using s t' by (simp add: find_child_def find_after_prefix)
  moreover have "find_child (tag W ''tblCellMar'') (add_cell_margins pr) \<noteq> None"
    by (auto simp: add_cell_margins_def find_child_def find_snoc_absent new_tblCellMar_def
        split: option.splits)
  ultimately show ?thesis by (simp add: has_cell_margins_def)
qed

lemma all_new_tblCellMar: "all_elements table_ok new_tblCellMar"
  by (simp add: new_tblCellMar_def cell_margin_def table_ok_def tag_def)

lemma all_add_cell_margins:
  assumes "all_elements table_ok pr" and "elem_tag pr = tag W ''tblPr''"
  shows "all_elements table_ok (add_cell_margins pr)"
proof (cases "find_child (tag W ''tblCellMar'') pr")
  case None
  have "table_ok (set_children pr (children pr @ [new_tblCellMar]))"
    using assms(2) by (simp add: table_ok_def tag_def)
  moreover have "list_all (all_elements table_ok) (children pr @ [new_tblCellMar])"
    using assms(1) all_new_tblCellMar by (simp add: all_elements_iff [of _ pr])
  ultimately show ?thesis
    using None by (simp add: add_cell_margins_def all_elements_iff [of _ "set_children pr _"])
next
  case (Some a)
  with assms(1) show ?thesis by (simp add: add_cell_margins_def)
qed

lemma all_fix_table:
  assumes "list_all (all_elements table_ok) (children tbl)"
  shows "all_elements table_ok (fix_table tbl)"
proof -
  have top: "table_ok (fix_table tbl)"
    using fix_table_has_margins [of tbl] by (simp add: table_ok_def)
  have kids: "list_all (all_elements table_ok) (children (fix_table tbl))"
  proof (cases "find_child (tag W ''tblPr'') tbl")
    case None
    have "all_elements table_ok (Element (tag W ''tblPr'') [] [] [new_tblCellMar] [])"
      using all_new_tblCellMar by (simp add: table_ok_def tag_def)
    with assms show ?thesis by (simp add: fix_table_no_tblPr [OF None])
  next
    case (Some pr)
    from fix_table_tblPr [OF Some] obtain pre post where s: "children tbl = pre @ pr # post"
      "fix_table tbl = set_children tbl (pre @ add_cell_margins pr # post)" by blast
    from Some have t: "elem_tag pr = tag W ''tblPr''"
      by (auto simp: find_child_def dest: find_split)
    from assms s(1) have "all_elements table_ok pr" by simp
    from all_add_cell_margins [OF this t] assms s show ?thesis by simp
  qed
  from top kids show ?thesis by (simp add: all_elements_iff [of _ "fix_table tbl"])
qed

lemma tables_in_all_ok: "all_elements table_ok (tables_in e)"
proof (induction e rule: tables_in.induct)
  case (1 t al x cs ta)
  have kids: "list_all (all_elements table_ok) (map tables_in cs)"
    using 1 by (simp add: list_all_iff)
  show ?case
  proof (cases "t = tag W ''tbl''")
    case True
    have "all_elements table_ok (fix_table (Element t al x (map tables_in cs) ta))"
      by (rule all_fix_table) (use kids in simp)
    with True show ?thesis by simp
  next
    case False
    then have "table_ok (Element t al x (map tables_in cs) ta)"
      by (simp add: table_ok_def)
    with False kids show ?thesis by simp
  qed
qed

text \<open>
  Claim C7, as the code has it, for the visit of one table and for the whole pass.
  A table with no \<^verbatim>\<open>tblPr\<close> gets a new one as its first child, holding the new
  \<^verbatim>\<open>tblCellMar\<close>. A table with a \<^verbatim>\<open>tblPr\<close> keeps it where it is; when that
  \<^verbatim>\<open>tblPr\<close> has no \<^verbatim>\<open>tblCellMar\<close>, the new one is appended as its last child, and
  when it has one the table is unchanged. The new \<^verbatim>\<open>tblCellMar\<close> has the four sides
  top, left, bottom, right, each with \<^verbatim>\<open>w=80\<close> and \<^verbatim>\<open>type=dxa\<close>. After the pass
  every table below the body has cell margins.
\<close>

theorem table_fixer_margins:
  "(find_child (tag W ''tblPr'') tbl = None \<longrightarrow>
      fix_table tbl =
        set_children tbl (Element (tag W ''tblPr'') [] [] [new_tblCellMar] [] # children tbl)) \<and>
   (find_child (tag W ''tblPr'') tbl = Some pr \<longrightarrow>
      (\<exists>pre post. children tbl = pre @ pr # post \<and>
         list_all (\<lambda>y. elem_tag y \<noteq> tag W ''tblPr'') pre \<and>
         fix_table tbl = set_children tbl (pre @ add_cell_margins pr # post)) \<and>
      (find_child (tag W ''tblCellMar'') pr = None \<longrightarrow>
         add_cell_margins pr = set_children pr (children pr @ [new_tblCellMar])) \<and>
      (find_child (tag W ''tblCellMar'') pr \<noteq> None \<longrightarrow> fix_table tbl = tbl)) \<and>
   has_cell_margins (fix_table tbl) \<and>
   list_all (all_elements table_ok) (children (fix_tables_body body)) \<and>
   new_tblCellMar =
     Element (tag W ''tblCellMar'') [] []
       [Element (tag W ''top'') [(tag W ''w'', ''80''), (tag W ''type'', ''dxa'')] [] [] [],
        Element (tag W ''left'') [(tag W ''w'', ''80''), (tag W ''type'', ''dxa'')] [] [] [],
        Element (tag W ''bottom'') [(tag W ''w'', ''80''), (tag W ''type'', ''dxa'')] [] [] [],
        Element (tag W ''right'') [(tag W ''w'', ''80''), (tag W ''type'', ''dxa'')] [] [] []] []"
  using fix_table_no_tblPr [of tbl] fix_table_tblPr [of tbl pr] add_cell_margins_absent [of pr]
    fix_table_unchanged [of tbl pr] fix_table_has_margins [of tbl] new_tblCellMar_sides
    tables_in_all_ok
  by (simp add: fix_tables_body_def list_all_iff)

theorem table_fixer_margins_witness:
  "find_child (tag W ''tblPr'') tbl_bare = None \<and>
   fix_table tbl_bare =
     Element (tag W ''tbl'') [] []
       [Element (tag W ''tblPr'') [] [] [new_tblCellMar] [], Element (tag W ''tr'') [] [] [] []] [] \<and>
   find_child (tag W ''tblPr'') tbl_with_margins =
     Some (Element (tag W ''tblPr'') [] []
          [Element (tag W ''tblCellMar'') [] []
             [Element (tag W ''left'') [(tag W ''w'', ''115''), (tag W ''type'', ''dxa'')] [] [] []] []] []) \<and>
   fix_table tbl_with_margins = tbl_with_margins \<and>
   find_child (tag W ''tblPr'') tbl_styled =
     Some (Element (tag W ''tblPr'') [] []
          [Element (tag W ''tblStyle'') [(tag W ''val'', ''TableGrid'')] [] [] []] []) \<and>
   add_cell_margins (Element (tag W ''tblPr'') [] []
          [Element (tag W ''tblStyle'') [(tag W ''val'', ''TableGrid'')] [] [] []] []) =
     Element (tag W ''tblPr'') [] []
          [Element (tag W ''tblStyle'') [(tag W ''val'', ''TableGrid'')] [] [] [], new_tblCellMar] [] \<and>
   has_cell_margins (fix_table tbl_styled)"
proof -
  have h0: "find_child (tag W ''tblPr'') tbl_bare = None"
    by (simp add: find_child_def tbl_bare_def tag_def)
  have h1: "find_child (tag W ''tblPr'') tbl_with_margins =
     Some (Element (tag W ''tblPr'') [] []
          [Element (tag W ''tblCellMar'') [] []
             [Element (tag W ''left'') [(tag W ''w'', ''115''), (tag W ''type'', ''dxa'')] [] [] []] []] [])"
    by (simp add: find_child_def tbl_with_margins_def)
  have h1': "find_child (tag W ''tblCellMar'') (Element (tag W ''tblPr'') [] []
          [Element (tag W ''tblCellMar'') [] []
             [Element (tag W ''left'') [(tag W ''w'', ''115''), (tag W ''type'', ''dxa'')] [] [] []] []] []) \<noteq> None"
    by (simp add: find_child_def)
  have h2: "find_child (tag W ''tblPr'') tbl_styled =
     Some (Element (tag W ''tblPr'') [] []
          [Element (tag W ''tblStyle'') [(tag W ''val'', ''TableGrid'')] [] [] []] [])"
    by (simp add: find_child_def tbl_styled_def)
  have h2': "find_child (tag W ''tblCellMar'') (Element (tag W ''tblPr'') [] []
          [Element (tag W ''tblStyle'') [(tag W ''val'', ''TableGrid'')] [] [] []] []) = None"
    by (simp add: find_child_def tag_def)
  from h0 h1 h1' h2 h2'
    table_fixer_margins [of tbl_bare undefined undefined]
    table_fixer_margins [of tbl_with_margins _ undefined, OF]
    table_fixer_margins [of tbl_styled _ undefined]
  show ?thesis
    by (simp add: set_children_def tbl_bare_def)
qed

text \<open>At a table whose \<^verbatim>\<open>tblPr\<close> holds a style reference, the new
  \<^verbatim>\<open>tblCellMar\<close> is the last child of the \<^verbatim>\<open>tblPr\<close>, after the style reference.\<close>

theorem table_fixer_appends_margins:
  "fix_table tbl_styled =
     Element (tag W ''tbl'') [] []
       [Element (tag W ''tblPr'') [] []
          [Element (tag W ''tblStyle'') [(tag W ''val'', ''TableGrid'')] [] [] [],
           new_tblCellMar] [],
        Element (tag W ''tr'') [] [] [] []] []"
  by code_simp

section \<open>The styles patcher\<close>

text \<open>\<open>occurs old s\<close>: the list \<open>old\<close> stands somewhere in \<open>s\<close>.\<close>

fun occurs :: "'a list \<Rightarrow> 'a list \<Rightarrow> bool" where
  "occurs old [] = (old = [])"
| "occurs old (x # xs) = (take (length old) (x # xs) = old \<or> occurs old xs)"

lemma str_replace_absent:
  "\<not> occurs old s \<Longrightarrow> str_replace old new s = s"
  by (induction s) auto

lemma str_replace_at_head:
  assumes "old \<noteq> []"
  shows "str_replace old new (old @ b) = new @ str_replace old new b"
proof -
  from assms obtain x xs where o: "old = x # xs" by (cases old) auto
  have "str_replace old new (x # (xs @ b)) =
      new @ str_replace old new (drop (length old) (x # (xs @ b)))"
    using o by simp
  then show ?thesis using o by simp
qed

lemma take_before_last:
  assumes "old \<noteq> []"
  shows "take (length old) ((x # a) @ old @ b) = take (length old) ((x # a) @ butlast old)"
proof -
  have "(x # a) @ old @ b = ((x # a) @ butlast old) @ (last old # b)"
    using assms by simp
  moreover have "length old \<le> length ((x # a) @ butlast old)"
    by simp
  ultimately show ?thesis by (metis take_append take_all_iff append_Nil2 diff_is_0_eq take_0)
qed

lemma str_replace_first:
  assumes "old \<noteq> []" and "\<not> occurs old (a @ butlast old)"
  shows "str_replace old new (a @ old @ b) = a @ new @ str_replace old new b"
  using assms(2)
proof (induction a)
  case Nil
  then show ?case using assms(1) by (simp add: str_replace_at_head)
next
  case (Cons x a)
  from Cons.prems have n: "take (length old) ((x # a) @ butlast old) \<noteq> old"
    and r: "\<not> occurs old (a @ butlast old)" by auto
  from n have "take (length old) ((x # a) @ old @ b) \<noteq> old"
    using take_before_last [OF assms(1), of x a b] by metis
  then have "str_replace old new ((x # a) @ old @ b) = x # str_replace old new (a @ old @ b)"
    by simp
  with Cons.IH [OF r] show ?case by simp
qed

lemma replace_all_two:
  "replace_all replacements s =
     str_replace (ascii ''Cambria Math'') (ascii ''Cambria'')
       (str_replace (ascii ''Calibri Light'') (ascii ''Calibri'') s)"
  by (simp add: replace_all_def replacements_def)

lemma replace_all_absent:
  "\<not> occurs (ascii ''Calibri Light'') s \<Longrightarrow> \<not> occurs (ascii ''Cambria Math'') s \<Longrightarrow>
   replace_all replacements s = s"
  by (simp add: replace_all_two str_replace_absent)

lemma ascii_nonempty: "ascii ''Calibri Light'' \<noteq> [] \<and> ascii ''Cambria Math'' \<noteq> []"
  by (simp add: ascii_def)

lemma patch_styles_encoded:
  "encode_utf8 L (replace_all replacements (decode_utf8_replace L xml_bytes)) = Some out \<Longrightarrow>
   patch_styles L xml_bytes = out"
  by (simp add: patch_styles_def patch_styles_try_def)

lemma replace_all_calibri_light:
  assumes "\<not> occurs (ascii ''Calibri Light'') (a @ butlast (ascii ''Calibri Light''))"
    and "\<not> occurs (ascii ''Calibri Light'') b"
    and "\<not> occurs (ascii ''Cambria Math'') (a @ ascii ''Calibri'' @ b)"
  shows "replace_all replacements (a @ ascii ''Calibri Light'' @ b) = a @ ascii ''Calibri'' @ b"
proof -
  have "str_replace (ascii ''Calibri Light'') (ascii ''Calibri'') (a @ ascii ''Calibri Light'' @ b) =
      a @ ascii ''Calibri'' @ str_replace (ascii ''Calibri Light'') (ascii ''Calibri'') b"
    using ascii_nonempty assms(1) by (intro str_replace_first) simp_all
  also have "str_replace (ascii ''Calibri Light'') (ascii ''Calibri'') b = b"
    using assms(2) by (rule str_replace_absent)
  finally have "replace_all replacements (a @ ascii ''Calibri Light'' @ b) =
      str_replace (ascii ''Cambria Math'') (ascii ''Cambria'') (a @ ascii ''Calibri'' @ b)"
    by (simp only: replace_all_two)
  also have "\<dots> = a @ ascii ''Calibri'' @ b"
    using assms(3) by (rule str_replace_absent)
  finally show ?thesis .
qed

lemma replace_all_cambria_math:
  assumes "\<not> occurs (ascii ''Calibri Light'') (a @ ascii ''Cambria Math'' @ b)"
    and "\<not> occurs (ascii ''Cambria Math'') (a @ butlast (ascii ''Cambria Math''))"
    and "\<not> occurs (ascii ''Cambria Math'') b"
  shows "replace_all replacements (a @ ascii ''Cambria Math'' @ b) = a @ ascii ''Cambria'' @ b"
proof -
  have "str_replace (ascii ''Calibri Light'') (ascii ''Calibri'') (a @ ascii ''Cambria Math'' @ b) =
      a @ ascii ''Cambria Math'' @ b"
    using assms(1) by (rule str_replace_absent)
  then have "replace_all replacements (a @ ascii ''Cambria Math'' @ b) =
      str_replace (ascii ''Cambria Math'') (ascii ''Cambria'') (a @ ascii ''Cambria Math'' @ b)"
    by (simp only: replace_all_two)
  also have "\<dots> = a @ ascii ''Cambria'' @ str_replace (ascii ''Cambria Math'') (ascii ''Cambria'') b"
    using ascii_nonempty assms(2) by (intro str_replace_first) simp_all
  also have "str_replace (ascii ''Cambria Math'') (ascii ''Cambria'') b = b"
    using assms(3) by (rule str_replace_absent)
  finally show ?thesis .
qed

text \<open>
  Claim C8, as the code has it. The table of \<^verbatim>\<open>_patch_styles\<close> has two keys,
  \<^verbatim>\<open>Calibri Light\<close> and \<^verbatim>\<open>Cambria Math\<close>, applied in this order to the decoded
  text. Each substitution rewrites the first occurrence of its key and goes on behind
  it. The patcher returns the encoding of the text after both substitutions: a styles
  part that names \<^verbatim>\<open>Calibri Light\<close> once comes back with \<^verbatim>\<open>Calibri\<close> in its place,
  one that names \<^verbatim>\<open>Cambria Math\<close> once with \<^verbatim>\<open>Cambria\<close> in its place, and one in
  which neither key occurs comes back unchanged whenever its bytes survive decoding and
  encoding.
\<close>

theorem styles_patcher_two_fonts:
  "map fst replacements = [ascii ''Calibri Light'', ascii ''Cambria Math''] \<and>
   replace_all replacements s =
     str_replace (ascii ''Cambria Math'') (ascii ''Cambria'')
       (str_replace (ascii ''Calibri Light'') (ascii ''Calibri'') s) \<and>
   (\<not> occurs (ascii ''Calibri Light'') (a @ butlast (ascii ''Calibri Light'')) \<longrightarrow>
      str_replace (ascii ''Calibri Light'') (ascii ''Calibri'') (a @ ascii ''Calibri Light'' @ b) =
        a @ ascii ''Calibri'' @ str_replace (ascii ''Calibri Light'') (ascii ''Calibri'') b) \<and>
   (\<not> occurs (ascii ''Cambria Math'') (a @ butlast (ascii ''Cambria Math'')) \<longrightarrow>
      str_replace (ascii ''Cambria Math'') (ascii ''Cambria'') (a @ ascii ''Cambria Math'' @ b) =
        a @ ascii ''Cambria'' @ str_replace (ascii ''Cambria Math'') (ascii ''Cambria'') b) \<and>
   (\<not> occurs (ascii ''Calibri Light'') s \<and> \<not> occurs (ascii ''Cambria Math'') s \<longrightarrow>
      replace_all replacements s = s) \<and>
   (\<not> occurs (ascii ''Calibri Light'') (decode_utf8_replace L xml_bytes) \<and>
    \<not> occurs (ascii ''Cambria Math'') (decode_utf8_replace L xml_bytes) \<and>
    encode_utf8 L (decode_utf8_replace L xml_bytes) = Some xml_bytes \<longrightarrow>
      patch_styles L xml_bytes = xml_bytes) \<and>
   (decode_utf8_replace L xml_bytes = a @ ascii ''Calibri Light'' @ b \<and>
    \<not> occurs (ascii ''Calibri Light'') (a @ butlast (ascii ''Calibri Light'')) \<and>
    \<not> occurs (ascii ''Calibri Light'') b \<and>
    \<not> occurs (ascii ''Cambria Math'') (a @ ascii ''Calibri'' @ b) \<and>
    encode_utf8 L (a @ ascii ''Calibri'' @ b) = Some out \<longrightarrow>
      patch_styles L xml_bytes = out) \<and>
   (decode_utf8_replace L xml_bytes = a @ ascii ''Cambria Math'' @ b \<and>
    \<not> occurs (ascii ''Calibri Light'') (a @ ascii ''Cambria Math'' @ b) \<and>
    \<not> occurs (ascii ''Cambria Math'') (a @ butlast (ascii ''Cambria Math'')) \<and>
    \<not> occurs (ascii ''Cambria Math'') b \<and>
    encode_utf8 L (a @ ascii ''Cambria'' @ b) = Some out \<longrightarrow>
      patch_styles L xml_bytes = out) \<and>
   (encode_utf8 L
      (str_replace (ascii ''Cambria Math'') (ascii ''Cambria'')
         (str_replace (ascii ''Calibri Light'') (ascii ''Calibri'')
            (decode_utf8_replace L xml_bytes))) = Some out \<longrightarrow>
      patch_styles L xml_bytes = out)"
proof (intro conjI impI)
  show "map fst replacements = [ascii ''Calibri Light'', ascii ''Cambria Math'']"
    by (simp add: replacements_def)
  show "replace_all replacements s =
     str_replace (ascii ''Cambria Math'') (ascii ''Cambria'')
       (str_replace (ascii ''Calibri Light'') (ascii ''Calibri'') s)"
    by (rule replace_all_two)
next
  assume "\<not> occurs (ascii ''Calibri Light'') (a @ butlast (ascii ''Calibri Light''))"
  then show "str_replace (ascii ''Calibri Light'') (ascii ''Calibri'') (a @ ascii ''Calibri Light'' @ b) =
        a @ ascii ''Calibri'' @ str_replace (ascii ''Calibri Light'') (ascii ''Calibri'') b"
    using ascii_nonempty by (intro str_replace_first) simp_all
next
  assume "\<not> occurs (ascii ''Cambria Math'') (a @ butlast (ascii ''Cambria Math''))"
  then show "str_replace (ascii ''Cambria Math'') (ascii ''Cambria'') (a @ ascii ''Cambria Math'' @ b) =
        a @ ascii ''Cambria'' @ str_replace (ascii ''Cambria Math'') (ascii ''Cambria'') b"
    using ascii_nonempty by (intro str_replace_first) simp_all
next
  assume "\<not> occurs (ascii ''Calibri Light'') s \<and> \<not> occurs (ascii ''Cambria Math'') s"
  then show "replace_all replacements s = s"
    by (simp add: replace_all_absent)
next
  assume h: "\<not> occurs (ascii ''Calibri Light'') (decode_utf8_replace L xml_bytes) \<and>
    \<not> occurs (ascii ''Cambria Math'') (decode_utf8_replace L xml_bytes) \<and>
    encode_utf8 L (decode_utf8_replace L xml_bytes) = Some xml_bytes"
  then have "replace_all replacements (decode_utf8_replace L xml_bytes) = decode_utf8_replace L xml_bytes"
    by (simp add: replace_all_absent)
  with h show "patch_styles L xml_bytes = xml_bytes"
    by (simp add: patch_styles_def patch_styles_try_def)
next
  assume h: "decode_utf8_replace L xml_bytes = a @ ascii ''Calibri Light'' @ b \<and>
    \<not> occurs (ascii ''Calibri Light'') (a @ butlast (ascii ''Calibri Light'')) \<and>
    \<not> occurs (ascii ''Calibri Light'') b \<and>
    \<not> occurs (ascii ''Cambria Math'') (a @ ascii ''Calibri'' @ b) \<and>
    encode_utf8 L (a @ ascii ''Calibri'' @ b) = Some out"
  then have "replace_all replacements (decode_utf8_replace L xml_bytes) = a @ ascii ''Calibri'' @ b"
    using replace_all_calibri_light [of a b] by simp
  with h show "patch_styles L xml_bytes = out"
    by (intro patch_styles_encoded) simp
next
  assume h: "decode_utf8_replace L xml_bytes = a @ ascii ''Cambria Math'' @ b \<and>
    \<not> occurs (ascii ''Calibri Light'') (a @ ascii ''Cambria Math'' @ b) \<and>
    \<not> occurs (ascii ''Cambria Math'') (a @ butlast (ascii ''Cambria Math'')) \<and>
    \<not> occurs (ascii ''Cambria Math'') b \<and>
    encode_utf8 L (a @ ascii ''Cambria'' @ b) = Some out"
  then have "replace_all replacements (decode_utf8_replace L xml_bytes) = a @ ascii ''Cambria'' @ b"
    using replace_all_cambria_math [of a b] by simp
  with h show "patch_styles L xml_bytes = out"
    by (intro patch_styles_encoded) simp
next
  assume "encode_utf8 L
      (str_replace (ascii ''Cambria Math'') (ascii ''Cambria'')
         (str_replace (ascii ''Calibri Light'') (ascii ''Calibri'')
            (decode_utf8_replace L xml_bytes))) = Some out"
  then show "patch_styles L xml_bytes = out"
    by (intro patch_styles_encoded) (simp add: replace_all_two)
qed

theorem styles_patcher_two_fonts_witness:
  "\<not> occurs (ascii ''Calibri Light'') (ascii ''<f>'' @ butlast (ascii ''Calibri Light'')) \<and>
   \<not> occurs (ascii ''Cambria Math'') (ascii ''<f>'' @ butlast (ascii ''Cambria Math'')) \<and>
   \<not> occurs (ascii ''Calibri Light'') (ascii ''Symbol'') \<and>
   \<not> occurs (ascii ''Cambria Math'') (ascii ''Symbol'') \<and>
   encode_utf8 env_ascii (decode_utf8_replace env_ascii ''Symbol'') = Some ''Symbol'' \<and>
   str_replace (ascii ''Calibri Light'') (ascii ''Calibri'')
       (ascii ''<f>'' @ ascii ''Calibri Light'' @ ascii ''</f>'') =
     ascii ''<f>'' @ ascii ''Calibri'' @
       str_replace (ascii ''Calibri Light'') (ascii ''Calibri'') (ascii ''</f>'') \<and>
   str_replace (ascii ''Cambria Math'') (ascii ''Cambria'')
       (ascii ''<f>'' @ ascii ''Cambria Math'' @ ascii ''</f>'') =
     ascii ''<f>'' @ ascii ''Cambria'' @
       str_replace (ascii ''Cambria Math'') (ascii ''Cambria'') (ascii ''</f>'') \<and>
   replace_all replacements (ascii ''Symbol'') = ascii ''Symbol'' \<and>
   patch_styles env_ascii ''Symbol'' = ''Symbol'' \<and>
   decode_utf8_replace env_ascii ''<f>Calibri Light</f>'' =
     ascii ''<f>'' @ ascii ''Calibri Light'' @ ascii ''</f>'' \<and>
   \<not> occurs (ascii ''Calibri Light'') (ascii ''</f>'') \<and>
   \<not> occurs (ascii ''Cambria Math'') (ascii ''<f>'' @ ascii ''Calibri'' @ ascii ''</f>'') \<and>
   encode_utf8 env_ascii (ascii ''<f>'' @ ascii ''Calibri'' @ ascii ''</f>'') = Some ''<f>Calibri</f>'' \<and>
   patch_styles env_ascii ''<f>Calibri Light</f>'' = ''<f>Calibri</f>'' \<and>
   decode_utf8_replace env_ascii ''<f>Cambria Math</f>'' =
     ascii ''<f>'' @ ascii ''Cambria Math'' @ ascii ''</f>'' \<and>
   \<not> occurs (ascii ''Calibri Light'') (ascii ''<f>'' @ ascii ''Cambria Math'' @ ascii ''</f>'') \<and>
   \<not> occurs (ascii ''Cambria Math'') (ascii ''</f>'') \<and>
   encode_utf8 env_ascii (ascii ''<f>'' @ ascii ''Cambria'' @ ascii ''</f>'') = Some ''<f>Cambria</f>'' \<and>
   patch_styles env_ascii ''<f>Cambria Math</f>'' = ''<f>Cambria</f>'' \<and>
   encode_utf8 env_ascii
      (str_replace (ascii ''Cambria Math'') (ascii ''Cambria'')
         (str_replace (ascii ''Calibri Light'') (ascii ''Calibri'')
            (decode_utf8_replace env_ascii ''Cambria Math, Calibri Light, Cambria Math''))) =
     Some ''Cambria, Calibri, Cambria'' \<and>
   patch_styles env_ascii ''Cambria Math, Calibri Light, Cambria Math'' = ''Cambria, Calibri, Cambria''"
proof -
  have h1: "\<not> occurs (ascii ''Calibri Light'') (ascii ''<f>'' @ butlast (ascii ''Calibri Light''))"
    by (simp add: ascii_def)
  have h2: "\<not> occurs (ascii ''Cambria Math'') (ascii ''<f>'' @ butlast (ascii ''Cambria Math''))"
    by (simp add: ascii_def)
  have h3: "\<not> occurs (ascii ''Calibri Light'') (ascii ''Symbol'')"
    by (simp add: ascii_def)
  have h4: "\<not> occurs (ascii ''Cambria Math'') (ascii ''Symbol'')"
    by (simp add: ascii_def)
  have d: "decode_utf8_replace env_ascii ''Symbol'' = ascii ''Symbol''"
    by (simp add: env_ascii_def table_env_def ascii_def)
  have h5: "encode_utf8 env_ascii (decode_utf8_replace env_ascii ''Symbol'') = Some ''Symbol''"
    by code_simp
  note t = styles_patcher_two_fonts [where s = "ascii ''Symbol''" and a = "ascii ''<f>''"
      and b = "ascii ''</f>''" and L = env_ascii and xml_bytes = "''Symbol''" and out = "''Symbol''"]
  from t [THEN conjunct2, THEN conjunct2, THEN conjunct1, THEN mp, OF h1]
  have c1: "str_replace (ascii ''Calibri Light'') (ascii ''Calibri'')
       (ascii ''<f>'' @ ascii ''Calibri Light'' @ ascii ''</f>'') =
     ascii ''<f>'' @ ascii ''Calibri'' @
       str_replace (ascii ''Calibri Light'') (ascii ''Calibri'') (ascii ''</f>'')" .
  note t3 = t [THEN conjunct2, THEN conjunct2, THEN conjunct2]
  from t3 [THEN conjunct1, THEN mp, OF h2]
  have c2: "str_replace (ascii ''Cambria Math'') (ascii ''Cambria'')
       (ascii ''<f>'' @ ascii ''Cambria Math'' @ ascii ''</f>'') =
     ascii ''<f>'' @ ascii ''Cambria'' @
       str_replace (ascii ''Cambria Math'') (ascii ''Cambria'') (ascii ''</f>'')" .
  from t3 [THEN conjunct2, THEN conjunct1, THEN mp, OF conjI [OF h3 h4]]
  have c3: "replace_all replacements (ascii ''Symbol'') = ascii ''Symbol''" .
  from h3 h4 d have h3': "\<not> occurs (ascii ''Calibri Light'') (decode_utf8_replace env_ascii ''Symbol'')"
    and h4': "\<not> occurs (ascii ''Cambria Math'') (decode_utf8_replace env_ascii ''Symbol'')"
    by simp_all
  from t3 [THEN conjunct2, THEN conjunct2, THEN conjunct1, THEN mp, OF conjI [OF h3' conjI [OF h4' h5]]]
  have c4: "patch_styles env_ascii ''Symbol'' = ''Symbol''" .
  have d1: "decode_utf8_replace env_ascii ''<f>Calibri Light</f>'' =
     ascii ''<f>'' @ ascii ''Calibri Light'' @ ascii ''</f>''"
    by (simp add: env_ascii_def table_env_def ascii_def)
  have h6: "\<not> occurs (ascii ''Calibri Light'') (ascii ''</f>'')"
    by (simp add: ascii_def)
  have h7: "\<not> occurs (ascii ''Cambria Math'') (ascii ''<f>'' @ ascii ''Calibri'' @ ascii ''</f>'')"
    by (simp add: ascii_def)
  have e1: "encode_utf8 env_ascii (ascii ''<f>'' @ ascii ''Calibri'' @ ascii ''</f>'') =
      Some ''<f>Calibri</f>''"
    by code_simp
  note u = styles_patcher_two_fonts [where a = "ascii ''<f>''" and b = "ascii ''</f>''"
      and L = env_ascii and xml_bytes = "''<f>Calibri Light</f>''" and out = "''<f>Calibri</f>''"
      and s = "[]"]
  note u6 = u [THEN conjunct2, THEN conjunct2, THEN conjunct2, THEN conjunct2, THEN conjunct2,
      THEN conjunct2]
  from u6 [THEN conjunct1, THEN mp, OF conjI [OF d1 conjI [OF h1 conjI [OF h6 conjI [OF h7 e1]]]]]
  have c5: "patch_styles env_ascii ''<f>Calibri Light</f>'' = ''<f>Calibri</f>''" .
  have d2: "decode_utf8_replace env_ascii ''<f>Cambria Math</f>'' =
     ascii ''<f>'' @ ascii ''Cambria Math'' @ ascii ''</f>''"
    by (simp add: env_ascii_def table_env_def ascii_def)
  have h8: "\<not> occurs (ascii ''Calibri Light'') (ascii ''<f>'' @ ascii ''Cambria Math'' @ ascii ''</f>'')"
    by (simp add: ascii_def)
  have h9: "\<not> occurs (ascii ''Cambria Math'') (ascii ''</f>'')"
    by (simp add: ascii_def)
  have e2: "encode_utf8 env_ascii (ascii ''<f>'' @ ascii ''Cambria'' @ ascii ''</f>'') =
      Some ''<f>Cambria</f>''"
    by code_simp
  note v = styles_patcher_two_fonts [where a = "ascii ''<f>''" and b = "ascii ''</f>''"
      and L = env_ascii and xml_bytes = "''<f>Cambria Math</f>''" and out = "''<f>Cambria</f>''"
      and s = "[]"]
  note v7 = v [THEN conjunct2, THEN conjunct2, THEN conjunct2, THEN conjunct2, THEN conjunct2,
      THEN conjunct2, THEN conjunct2]
  from v7 [THEN conjunct1, THEN mp, OF conjI [OF d2 conjI [OF h8 conjI [OF h2 conjI [OF h9 e2]]]]]
  have c6: "patch_styles env_ascii ''<f>Cambria Math</f>'' = ''<f>Cambria</f>''" .
  have e3: "encode_utf8 env_ascii
      (str_replace (ascii ''Cambria Math'') (ascii ''Cambria'')
         (str_replace (ascii ''Calibri Light'') (ascii ''Calibri'')
            (decode_utf8_replace env_ascii ''Cambria Math, Calibri Light, Cambria Math''))) =
     Some ''Cambria, Calibri, Cambria''"
    by code_simp
  note w = styles_patcher_two_fonts [where a = "[]" and b = "[]"
      and L = env_ascii and xml_bytes = "''Cambria Math, Calibri Light, Cambria Math''"
      and out = "''Cambria, Calibri, Cambria''" and s = "[]"]
  note w8 = w [THEN conjunct2, THEN conjunct2, THEN conjunct2, THEN conjunct2, THEN conjunct2,
      THEN conjunct2, THEN conjunct2, THEN conjunct2]
  from w8 [THEN mp, OF e3]
  have c7: "patch_styles env_ascii ''Cambria Math, Calibri Light, Cambria Math'' =
      ''Cambria, Calibri, Cambria''" .
  show ?thesis
    using h1 h2 h3 h4 h5 c1 c2 c3 c4 d1 h6 h7 e1 c5 d2 h8 h9 e2 c6 e3 c7
    by - (intro conjI; assumption)
qed

text \<open>The run-level table sends \<^verbatim>\<open>Symbol\<close>, \<^verbatim>\<open>Webdings\<close> and \<^verbatim>\<open>Wingdings 2\<close>
  to \<^verbatim>\<open>Arial\<close>; the styles patcher returns these names as they are, next to a
  \<^verbatim>\<open>Calibri Light\<close> that it does rewrite (claim C8).\<close>

theorem styles_patcher_keeps_symbol_fonts:
  "patch_styles env_ascii ''Symbol Webdings'' = ''Symbol Webdings'' \<and>
   map safe_font [''Symbol'', ''Webdings''] = [''Arial'', ''Arial''] \<and>
   patch_styles env_ascii ''Calibri Light Wingdings 2'' = ''Calibri Wingdings 2'' \<and>
   map safe_font [''Calibri Light'', ''Wingdings 2''] = [''Calibri'', ''Arial'']"
  by code_simp

section \<open>The spacing fixer\<close>

text \<open>What the fixer does with an attribute whose value \<^verbatim>\<open>int\<close> accepts, and with
  one that is absent or fails the guard.\<close>

lemma is_decimal_not_dash: "is_decimal c \<Longrightarrow> c \<noteq> CHR ''-''"
  by (auto simp: is_decimal_def)

lemma is_decimal_isdigit: "list_all is_decimal s \<Longrightarrow> list_all isdigit_char s"
  by (induction s) (auto simp: isdigit_char_def)

lemma py_int_guard:
  assumes "py_int v = Inr n"
  shows "numeric_guard v"
proof (cases v)
  case Nil
  with assms show ?thesis by (simp add: py_int_def)
next
  case (Cons c r)
  show ?thesis
  proof (cases "c = CHR ''-''")
    case True
    with assms Cons have r: "r \<noteq> []" "list_all is_decimal r"
      by (auto simp: py_int_def split: if_splits)
    then obtain d r' where d: "r = d # r'" by (cases r) auto
    with r have "d \<noteq> CHR ''-''" by (auto dest: is_decimal_not_dash)
    with d have "lstrip_dash v = r" using Cons True by (simp add: lstrip_dash_def)
    with r Cons show ?thesis by (simp add: numeric_guard_def isdigit_def is_decimal_isdigit)
  next
    case False
    with assms Cons have a: "list_all is_decimal v"
      by (auto simp: py_int_def split: if_splits)
    from False Cons have "lstrip_dash v = v" by (simp add: lstrip_dash_def)
    with is_decimal_isdigit [OF a] Cons show ?thesis by (simp add: numeric_guard_def isdigit_def)
  qed
qed

lemma py_str_160: "py_str 160 = ''160''"
  by (simp add: py_str_def str_nat.simps)

lemma clamp_integer:
  assumes "get_attr spacing (tag W attr) = Some v" and "py_int v = Inr n"
  shows "clamp attr 160 spacing =
     Inr (if n > 160 then set_attr spacing (tag W attr) ''160'' else spacing)"
  using assms py_int_guard [OF assms(2)] by (simp add: clamp_def py_str_160)

lemma clamp_other:
  assumes "get_attr spacing (tag W attr) = None \<or>
     (\<exists>v. get_attr spacing (tag W attr) = Some v \<and> \<not> numeric_guard v)"
  shows "clamp attr m spacing = Inr spacing"
  using assms by (auto simp: clamp_def)

lemma fix_line_integer:
  assumes "get_attr spacing (tag W ''line'') = Some l" and "py_int l = Inr n"
  shows "fix_line spacing =
     Inr (if get_attr spacing (tag W ''lineRule'') \<in> {Some ''exact'', Some ''atLeast''} \<and> n > 480
          then set_attr (set_attr spacing (tag W ''line'') ''276'') (tag W ''lineRule'') ''auto''
          else if get_attr spacing (tag W ''lineRule'') = Some ''auto'' \<and> n > 720
          then set_attr spacing (tag W ''line'') ''480''
          else spacing)"
  using assms py_int_guard [OF assms(2)] by (auto simp: fix_line_def Let_def)

lemma fix_line_other:
  assumes "get_attr spacing (tag W ''line'') = None \<or>
     (\<exists>l. get_attr spacing (tag W ''line'') = Some l \<and> \<not> numeric_guard l)"
  shows "fix_line spacing = Inr spacing"
  using assms by (auto simp: fix_line_def Let_def)

lemma spacing_fixer_examples:
  "fix_paragraph_spacing (pPr_with (spacing_with
      [(''before'', ''600''), (''after'', ''100''), (''line'', ''600''), (''lineRule'', ''exact'')])) =
     Inr (pPr_with (spacing_with
      [(''before'', ''160''), (''after'', ''100''), (''line'', ''276''), (''lineRule'', ''auto'')])) \<and>
   fix_paragraph_spacing (pPr_with (spacing_with [(''line'', ''1000''), (''lineRule'', ''auto'')])) =
     Inr (pPr_with (spacing_with [(''line'', ''480''), (''lineRule'', ''auto'')]))"
  by code_simp

text \<open>
  Claim C5, at a spacing element with \<^verbatim>\<open>before="--200"\<close>. The value passes the
  guard \<^verbatim>\<open>val.lstrip('-').isdigit()\<close>, \<^verbatim>\<open>int(val)\<close> raises \<^verbatim>\<open>ValueError\<close>, and
  the exception leaves \<^verbatim>\<open>_fix_paragraph_spacing\<close>, \<^verbatim>\<open>_patch_document\<close> and
  \<^verbatim>\<open>fix_docx\<close>: the value is not left unchanged, nothing is returned.
\<close>

theorem spacing_fixer_raises_on_double_dash:
  "numeric_guard ''--200'' \<and> py_int ''--200'' = Inl ValueError \<and>
   fix_paragraph_spacing (pPr_with (spacing_with [(''before'', ''--200'')])) = Inl ValueError \<and>
   fix_docx env_double_dash ''zip-dd'' all_on = Inl ValueError"
  by code_simp

section \<open>The image fixer\<close>

text \<open>The visit of one drawing: the first anchor child is replaced when it holds a
  graphic payload; a drawing with exactly one anchor child and no inline child ends
  with no anchor child and exactly one inline child.\<close>

lemma convert_drawing_anchor:
  assumes "find_child (tag WP ''anchor'') drawing = Some anchor"
    and "find_desc A_graphic anchor = Some graphic"
  shows "\<exists>pre post. children drawing = pre @ anchor # post \<and>
           list_all (\<lambda>y. elem_tag y \<noteq> tag WP ''anchor'') pre \<and>
           convert_drawing drawing =
             set_children drawing (pre @ post @ [make_inline anchor graphic])"
proof -
  from assms(1) obtain pre post where s: "children drawing = pre @ anchor # post"
    "list_all (\<lambda>y. \<not> elem_tag y = tag WP ''anchor'') pre" "elem_tag anchor = tag WP ''anchor''"
    unfolding find_child_def using find_split [of "\<lambda>c. elem_tag c = tag WP ''anchor''"] by blast
  with assms have "convert_drawing drawing =
      set_children drawing (pre @ post @ [make_inline anchor graphic])"
    by (simp add: convert_drawing_def remove_first_split)
  with s show ?thesis by blast
qed

lemma convert_drawing_skip:
  assumes "find_child (tag WP ''anchor'') drawing = None \<or>
     (\<exists>anchor. find_child (tag WP ''anchor'') drawing = Some anchor \<and> find_desc A_graphic anchor = None)"
  shows "convert_drawing drawing = drawing"
  using assms by (auto simp: convert_drawing_def)

lemma make_inline_shape:
  "elem_tag (make_inline anchor graphic) = tag WP ''inline'' \<and>
   attrib (make_inline anchor graphic) =
     [(''distT'', ''0''), (''distB'', ''0''), (''distL'', ''114240''), (''distR'', ''114240'')] \<and>
   (\<exists>cx cy. children (make_inline anchor graphic) =
      [Element (tag WP ''extent'') [(''cx'', cx), (''cy'', cy)] [] [] [],
       Element (tag WP ''effectExtent'') [(''l'', ''0''), (''t'', ''0''), (''r'', ''0''), (''b'', ''0'')] [] [] []]
      @ (case find_child (tag WP ''docPr'') anchor of Some d \<Rightarrow> [d] | None \<Rightarrow> [])
      @ [graphic] \<and>
      cx = (case find_child (tag WP ''extent'') anchor of
              None \<Rightarrow> ''3000000''
            | Some e \<Rightarrow> (case get_attr e ''cx'' of None \<Rightarrow> ''3000000'' | Some v \<Rightarrow> v)) \<and>
      cy = (case find_child (tag WP ''extent'') anchor of
              None \<Rightarrow> ''2000000''
            | Some e \<Rightarrow> (case get_attr e ''cy'' of None \<Rightarrow> ''2000000'' | Some v \<Rightarrow> v)))"
  by (simp add: make_inline_def Let_def)

lemma convert_drawing_single_anchor:
  assumes "find_child (tag WP ''anchor'') drawing = Some anchor"
    and "find_desc A_graphic anchor = Some graphic"
    and "length (filter (\<lambda>c. elem_tag c = tag WP ''anchor'') (children drawing)) = 1"
    and "filter (\<lambda>c. elem_tag c = tag WP ''inline'') (children drawing) = []"
  shows "filter (\<lambda>c. elem_tag c = tag WP ''anchor'') (children (convert_drawing drawing)) = [] \<and>
         filter (\<lambda>c. elem_tag c = tag WP ''inline'') (children (convert_drawing drawing)) =
           [make_inline anchor graphic]"
proof -
  from convert_drawing_anchor [OF assms(1,2)] obtain pre post where
    s: "children drawing = pre @ anchor # post"
    "list_all (\<lambda>y. elem_tag y \<noteq> tag WP ''anchor'') pre"
    "convert_drawing drawing = set_children drawing (pre @ post @ [make_inline anchor graphic])"
    by blast
  from assms(1) have a: "elem_tag anchor = tag WP ''anchor''"
    by (auto simp: find_child_def dest: find_split)
  have ne: "tag WP ''inline'' \<noteq> tag WP ''anchor''" by (simp add: tag_def)
  from s(2) have p: "filter (\<lambda>c. elem_tag c = tag WP ''anchor'') pre = []"
    by (simp add: list_all_iff filter_empty_conv)
  from assms(3) s(1) a p have q: "filter (\<lambda>c. elem_tag c = tag WP ''anchor'') post = []"
    by simp
  from assms(4) s(1) have r: "filter (\<lambda>c. elem_tag c = tag WP ''inline'') pre = []"
    "filter (\<lambda>c. elem_tag c = tag WP ''inline'') post = []"
    using a ne by (simp_all split: if_splits)
  from s(3) p q r ne show ?thesis
    by (simp add: make_inline_shape)
qed

text \<open>
  Claim C6, at a drawing with two anchor children that each hold a graphic payload,
  and at an anchor whose payload holds a further floating drawing. In the first case
  the second anchor is still a child of the drawing after the pass. In the second the
  inner drawing that is serialized still has its anchor, and a second pass converts
  it.
\<close>

theorem image_fixer_leaves_an_anchor:
  "fix_floating_images
     (body_of [drawing_of [anchor_of (graphic_of ''a'' []), anchor_of (graphic_of ''b'' [])]]) =
   body_of [drawing_of [anchor_of (graphic_of ''b'' []), inline_of (graphic_of ''a'' [])]] \<and>
   fix_floating_images
     (body_of [drawing_of
        [anchor_of (graphic_of ''outer'' [drawing_of [anchor_of (graphic_of ''inner'' [])]])]]) =
   body_of [drawing_of
        [inline_of (graphic_of ''outer'' [drawing_of [anchor_of (graphic_of ''inner'' [])]])]] \<and>
   fix_floating_images
     (body_of [drawing_of
        [inline_of (graphic_of ''outer'' [drawing_of [anchor_of (graphic_of ''inner'' [])]])]]) =
   body_of [drawing_of
        [inline_of (graphic_of ''outer'' [drawing_of [inline_of (graphic_of ''inner'' [])]])]]"
  by code_simp

section \<open>The document patcher with every option off\<close>

text \<open>
  The behaviour the claim describes, written from its words: an empty \<^verbatim>\<open>pPr\<close> is
  put in front of the children of every paragraph that has no \<^verbatim>\<open>pPr\<close> child, and
  nothing else changes. A paragraph is in order when it has a \<^verbatim>\<open>pPr\<close> child.
\<close>

fun insert_missing_pPr :: "xml \<Rightarrow> xml" where
  "insert_missing_pPr (Element t al x cs ta) =
     (if t = tag W ''p'' \<and> \<not> list_ex (\<lambda>c. elem_tag c = tag W ''pPr'') cs
      then Element t al x (new_element (tag W ''pPr'') # map insert_missing_pPr cs) ta
      else Element t al x (map insert_missing_pPr cs) ta)"

definition para_ok :: "xml \<Rightarrow> bool" where
  "para_ok e = (elem_tag e \<noteq> tag W ''p'' \<or> find_child (tag W ''pPr'') e \<noteq> None)"

lemma elem_tag_insert_missing_pPr [simp]: "elem_tag (insert_missing_pPr e) = elem_tag e"
  by (cases e) simp

lemma find_None_list_ex: "List.find P xs = None \<longleftrightarrow> \<not> list_ex P xs"
  by (induction xs) auto

lemma mapM_pure:
  "(\<And>c. c \<in> set cs \<Longrightarrow> f c = Inr (g c)) \<Longrightarrow> mapM f cs = Inr (map g cs)"
  by (induction cs) auto

lemma fix_paragraph_all_off:
  assumes "\<not> fix_spacing opts" "\<not> fix_margins opts" "\<not> fix_fonts opts"
  shows "fix_paragraph opts para = Inr (ensure_pPr para)"
  using assms by (simp add: fix_paragraph_def)

lemma list_ex_map_tag:
  "list_ex (\<lambda>c. elem_tag c = t) (map insert_missing_pPr cs) = list_ex (\<lambda>c. elem_tag c = t) cs"
  by (induction cs) auto

lemma paragraphs_in_all_off:
  assumes "\<not> fix_spacing opts" "\<not> fix_margins opts" "\<not> fix_fonts opts"
  shows "paragraphs_in opts e = Inr (insert_missing_pPr e)"
proof (induction e)
  case (Element t al x cs ta)
  have m: "mapM (paragraphs_in opts) cs = Inr (map insert_missing_pPr cs)"
    by (rule mapM_pure) (use Element in auto)
  show ?case
  proof (cases "t = tag W ''p''")
    case True
    show ?thesis
    proof (cases "list_ex (\<lambda>c. elem_tag c = tag W ''pPr'') cs")
      case yes: True
      then have "find_child (tag W ''pPr'') (Element t al x (map insert_missing_pPr cs) ta) \<noteq> None"
        by (simp add: find_child_def find_None_list_ex list_ex_map_tag)
      then have "ensure_pPr (Element t al x (map insert_missing_pPr cs) ta) =
          Element t al x (map insert_missing_pPr cs) ta"
        by (auto simp: ensure_pPr_def)
      with True yes m assms show ?thesis by (simp add: fix_paragraph_all_off)
    next
      case no: False
      then have "find_child (tag W ''pPr'') (Element t al x (map insert_missing_pPr cs) ta) = None"
        by (simp add: find_child_def find_None_list_ex list_ex_map_tag)
      then have "ensure_pPr (Element t al x (map insert_missing_pPr cs) ta) =
          Element t al x (new_element (tag W ''pPr'') # map insert_missing_pPr cs) ta"
        by (simp add: ensure_pPr_def set_children_def)
      with True no m assms show ?thesis by (simp add: fix_paragraph_all_off)
    qed
  next
    case False
    with m show ?thesis by simp
  qed
qed

lemma patch_body_all_off:
  assumes "\<not> fix_spacing opts" "\<not> fix_margins opts" "\<not> fix_fonts opts"
    "\<not> fix_images opts" "\<not> fix_tables opts"
  shows "patch_body opts body = Inr (set_children body (map insert_missing_pPr (children body)))"
proof -
  have "mapM (paragraphs_in opts) (children body) = Inr (map insert_missing_pPr (children body))"
    by (rule mapM_pure) (simp add: paragraphs_in_all_off assms)
  with assms show ?thesis by (simp add: patch_body_def)
qed

lemma insert_missing_pPr_all_ok: "all_elements para_ok (insert_missing_pPr e)"
proof (induction e)
  case (Element t al x cs ta)
  have kids: "list_all (all_elements para_ok) (map insert_missing_pPr cs)"
    using Element by (auto simp: list_all_iff)
  have new: "all_elements para_ok (new_element (tag W ''pPr''))"
    by (simp add: new_element_def para_ok_def tag_def)
  show ?case
  proof (cases "t = tag W ''p'' \<and> \<not> list_ex (\<lambda>c. elem_tag c = tag W ''pPr'') cs")
    case True
    have "para_ok (Element t al x (new_element (tag W ''pPr'') # map insert_missing_pPr cs) ta)"
      by (simp add: para_ok_def find_child_def new_element_def)
    with True kids new show ?thesis by simp
  next
    case False
    have "para_ok (Element t al x (map insert_missing_pPr cs) ta)"
      using False
      by (auto simp: para_ok_def find_child_def find_None_list_ex list_ex_map_tag)
    with False kids show ?thesis by auto
  qed
qed

lemma map_fixed_iff: "map f xs = xs \<longleftrightarrow> (\<forall>x \<in> set xs. f x = x)"
  by (induction xs) auto

lemma insert_missing_pPr_fixed_iff: "insert_missing_pPr e = e \<longleftrightarrow> all_elements para_ok e"
proof (induction e)
  case (Element t al x cs ta)
  have kids: "map insert_missing_pPr cs = cs \<longleftrightarrow> list_all (all_elements para_ok) cs"
    using Element by (auto simp: map_fixed_iff list_all_iff)
  show ?case
  proof (cases "t = tag W ''p'' \<and> \<not> list_ex (\<lambda>c. elem_tag c = tag W ''pPr'') cs")
    case True
    then have n: "\<not> para_ok (Element t al x cs ta)"
      by (simp add: para_ok_def find_child_def find_None_list_ex)
    have "length (new_element (tag W ''pPr'') # map insert_missing_pPr cs) \<noteq> length cs"
      by simp
    then have "new_element (tag W ''pPr'') # map insert_missing_pPr cs \<noteq> cs"
      by metis
    with True n show ?thesis by simp
  next
    case False
    then have "para_ok (Element t al x cs ta)"
      by (auto simp: para_ok_def find_child_def find_None_list_ex)
    with False kids show ?thesis by auto
  qed
qed

lemma find_append_case:
  "List.find P (xs @ ys) = (case List.find P xs of None \<Rightarrow> List.find P ys | Some x \<Rightarrow> Some x)"
  by (induction xs) auto

lemma descendants_children:
  "descendants e = concat (map (\<lambda>c. c # descendants c) (children e))"
  by (cases e) simp

lemma subst_desc_find:
  "(case List.find (\<lambda>c. elem_tag c = t) (concat (map (\<lambda>c. c # descendants c) cs)) of
      None \<Rightarrow> subst_desc t new cs = None
    | Some b \<Rightarrow> (\<exists>cs'. subst_desc t new cs = Some cs' \<and> (cs' = cs \<longleftrightarrow> new = b)))"
proof (induction t new cs rule: subst_desc.induct)
  case (1 t new)
  then show ?case by simp
next
  case (2 t new t' al x cs ta rest)
  show ?case
  proof (cases "t' = t")
    case True
    then show ?thesis by auto
  next
    case False
    note IH1 = "2.IH"(1) [OF False]
    show ?thesis
    proof (cases "List.find (\<lambda>c. elem_tag c = t) (concat (map (\<lambda>c. c # descendants c) cs))")
      case None
      with IH1 have s1: "subst_desc t new cs = None" by simp
      note IH2 = "2.IH"(2) [OF False s1]
      from False None s1 IH2 show ?thesis
        by (auto simp: find_append_case split: option.splits)
    next
      case (Some b)
      with IH1 obtain cs' where "subst_desc t new cs = Some cs'" "cs' = cs \<longleftrightarrow> new = b"
        by auto
      with False Some show ?thesis
        by (auto simp: find_append_case)
    qed
  qed
qed

lemma replace_desc_same_iff:
  assumes "find_desc t root = Some b"
  shows "replace_desc t new root = root \<longleftrightarrow> new = b"
proof -
  from assms have f: "List.find (\<lambda>c. elem_tag c = t)
      (concat (map (\<lambda>c. c # descendants c) (children root))) = Some b"
    by (simp add: find_desc_def descendants_children [of root])
  with subst_desc_find [where t = t and cs = "children root" and new = new] obtain cs'
    where c: "subst_desc t new (children root) = Some cs'" "cs' = children root \<longleftrightarrow> new = b"
    by auto
  have "set_children root cs' = root \<longleftrightarrow> cs' = children root"
    by (cases root) (simp add: set_children_def)
  with c show ?thesis by (simp add: replace_desc_def)
qed

text \<open>
  Claim C9. When lxml is there, the document parses and has a body, and every option
  is off, \<^verbatim>\<open>_patch_document\<close> returns the serialization of the tree in which every
  paragraph below the body that lacked a \<^verbatim>\<open>pPr\<close> has got an empty one as its first
  child. Afterwards every paragraph below the body has a \<^verbatim>\<open>pPr\<close>. The tree is the
  parsed one exactly when no paragraph lacked a \<^verbatim>\<open>pPr\<close>; when one did, and the
  serialized bytes parse back to the tree they were made from, the bytes returned are
  not the input bytes.
\<close>

theorem patch_document_inserts_pPr_with_all_options_off:
  assumes "LXML_AVAILABLE L"
    and "fromstring_recover L xml_bytes = Some root"
    and "find_desc (tag W ''body'') root = Some body"
    and "\<not> fix_spacing opts" "\<not> fix_margins opts" "\<not> fix_fonts opts"
      "\<not> fix_images opts" "\<not> fix_tables opts"
  shows "patch_body opts body = Inr (set_children body (map insert_missing_pPr (children body))) \<and>
     patch_document L xml_bytes opts =
       Inr (tostring L (replace_desc (tag W ''body'')
              (set_children body (map insert_missing_pPr (children body))) root)) \<and>
     list_all (all_elements para_ok) (map insert_missing_pPr (children body)) \<and>
     (replace_desc (tag W ''body'')
         (set_children body (map insert_missing_pPr (children body))) root = root
        \<longleftrightarrow> list_all (all_elements para_ok) (children body)) \<and>
     (\<not> list_all (all_elements para_ok) (children body) \<and>
      fromstring_recover L (tostring L (replace_desc (tag W ''body'')
              (set_children body (map insert_missing_pPr (children body))) root)) =
        Some (replace_desc (tag W ''body'')
              (set_children body (map insert_missing_pPr (children body))) root)
      \<longrightarrow> patch_document L xml_bytes opts \<noteq> Inr xml_bytes)"
proof -
  let ?body' = "set_children body (map insert_missing_pPr (children body))"
  let ?root' = "replace_desc (tag W ''body'') ?body' root"
  have b: "patch_body opts body = Inr ?body'"
    by (rule patch_body_all_off) (use assms in auto)
  with assms(1-3) have d: "patch_document L xml_bytes opts = Inr (tostring L ?root')"
    by (simp add: patch_document_def)
  have ok: "list_all (all_elements para_ok) (map insert_missing_pPr (children body))"
    by (simp add: list_all_iff insert_missing_pPr_all_ok)
  have "?body' = body \<longleftrightarrow> map insert_missing_pPr (children body) = children body"
    by (cases body) (simp add: set_children_def)
  also have "\<dots> \<longleftrightarrow> list_all (all_elements para_ok) (children body)"
    by (simp add: map_fixed_iff list_all_iff insert_missing_pPr_fixed_iff)
  finally have same: "?root' = root \<longleftrightarrow> list_all (all_elements para_ok) (children body)"
    using replace_desc_same_iff [OF assms(3), of ?body'] by simp
  have diff: "patch_document L xml_bytes opts \<noteq> Inr xml_bytes"
    if n: "\<not> list_all (all_elements para_ok) (children body)"
      and r: "fromstring_recover L (tostring L ?root') = Some ?root'"
  proof
    assume "patch_document L xml_bytes opts = Inr xml_bytes"
    with d have "tostring L ?root' = xml_bytes" by simp
    with r assms(2) have "?root' = root" by simp
    with same n show False by simp
  qed
  from b d ok same diff show ?thesis by blast
qed

theorem patch_document_inserts_pPr_with_all_options_off_witness:
  "LXML_AVAILABLE env_one_para \<and>
   fromstring_recover env_one_para ''<one-para/>'' = Some doc_one_para \<and>
   find_desc (tag W ''body'') doc_one_para = Some body_one_para \<and>
   \<not> list_all (all_elements para_ok) (children body_one_para) \<and>
   patch_body all_off body_one_para =
     Inr (set_children body_one_para (map insert_missing_pPr (children body_one_para))) \<and>
   patch_document env_one_para ''<one-para/>'' all_off = Inr ''<one-para-pPr/>'' \<and>
   patch_document env_one_para ''<one-para/>'' all_off \<noteq> Inr ''<one-para/>''"
proof -
  have h1: "LXML_AVAILABLE env_one_para"
    by (simp add: env_one_para_def table_env_def)
  have h2: "fromstring_recover env_one_para ''<one-para/>'' = Some doc_one_para"
    by (simp add: env_one_para_def table_env_def)
  have h3: "find_desc (tag W ''body'') doc_one_para = Some body_one_para"
    by code_simp
  have h4: "\<not> fix_spacing all_off" "\<not> fix_margins all_off" "\<not> fix_fonts all_off"
    "\<not> fix_images all_off" "\<not> fix_tables all_off"
    by (simp_all add: all_off_def)
  have h5: "\<not> list_all (all_elements para_ok) (children body_one_para)"
    by code_simp
  have out: "tostring env_one_para (replace_desc (tag W ''body'')
      (set_children body_one_para (map insert_missing_pPr (children body_one_para))) doc_one_para) =
      ''<one-para-pPr/>''"
    by code_simp
  have h6: "fromstring_recover env_one_para (tostring env_one_para (replace_desc (tag W ''body'')
      (set_children body_one_para (map insert_missing_pPr (children body_one_para))) doc_one_para)) =
    Some (replace_desc (tag W ''body'')
      (set_children body_one_para (map insert_missing_pPr (children body_one_para))) doc_one_para)"
    by code_simp
  note t = patch_document_inserts_pPr_with_all_options_off [OF h1 h2 h3 h4]
  from t have c1: "patch_body all_off body_one_para =
     Inr (set_children body_one_para (map insert_missing_pPr (children body_one_para)))"
    by blast
  from t out have c2: "patch_document env_one_para ''<one-para/>'' all_off = Inr ''<one-para-pPr/>''"
    by simp
  from t h5 h6 have c3: "patch_document env_one_para ''<one-para/>'' all_off \<noteq> Inr ''<one-para/>''"
    by blast
  from h1 h2 h3 h5 c1 c2 c3 show ?thesis by blast
qed

section \<open>Applying the engine twice\<close>

subsection \<open>The archive loop on its own output\<close>



subsection \<open>The clamps and substitutions saturate\<close>






























end
